theory Spec2Isabelle
  imports Main "HOL-Library.Char_ord" "HOL-Library.List_Lexorder" "HOL-Library.Sublist"
    "HOL-Library.AList" "HOL-Library.Word"
begin

section \<open>Python built-ins used by the snapshot store\<close>

text \<open>
  Strings are lists of characters, a character being one of the 256 code points below
  U+0100. Python compares \<open>str\<close> values code point by code point, a proper prefix being
  smaller, which is the order of \<open>List_Lexorder\<close> over \<open>Char_ord\<close>. \<open>s.endswith(t)\<close>
  is \<open>suffix t s\<close>, \<open>s[:n]\<close> is \<open>take n s\<close> and \<open>s[n:]\<close> is \<open>drop n s\<close>. An exception
  is a value of \<open>error\<close>, returned on the left of a sum.
\<close>

datatype error =
    FileNotFoundError | FileExistsError | IsADirectoryError | NotADirectoryError
  | ValueError | TypeError | JSONDecodeError | DatabaseError

subsection \<open>Decimal digits: \<open>%0wd\<close> and \<open>int(str)\<close>\<close>

definition is_digit :: "char \<Rightarrow> bool" where
  "is_digit c = (CHR ''0'' \<le> c \<and> c \<le> CHR ''9'')"

definition digit_val :: "char \<Rightarrow> nat" where
  "digit_val c = of_char c - 48"

definition digit_char :: "nat \<Rightarrow> char" where
  "digit_char n = char_of (48 + n)"

text \<open>The decimal digits of a natural number, most significant first, no padding.\<close>

fun dec :: "nat \<Rightarrow> string" where
  "dec n = (if n < 10 then [digit_char n] else dec (n div 10) @ [digit_char (n mod 10)])"

definition zero_pad :: "nat \<Rightarrow> string \<Rightarrow> string" where
  "zero_pad w s = replicate (w - length s) CHR ''0'' @ s"

text \<open>
  \<open>"%0wd" % i\<close>: at least \<open>w\<close> characters, padded with zeros after the sign; a number
  with more digits than \<open>w\<close> is printed in full.
\<close>

definition fmt_d :: "nat \<Rightarrow> int \<Rightarrow> string" where
  "fmt_d w i = (if i < 0 then CHR ''-'' # zero_pad (w - 1) (dec (nat (- i)))
                else zero_pad w (dec (nat i)))"

text \<open>
  \<open>int(s)\<close> for a string, base 10: surrounding whitespace is stripped, one sign is
  allowed, then decimal digits, with single underscores allowed between digits.
  Anything else raises ValueError, the value \<open>None\<close> here.
\<close>

definition py_isspace :: "char \<Rightarrow> bool" where
  "py_isspace c = ((of_char c :: nat) \<in> {9, 10, 11, 12, 13, 28, 29, 30, 31, 32, 133, 160})"

definition strip :: "string \<Rightarrow> string" where
  "strip s = rev (dropWhile py_isspace (rev (dropWhile py_isspace s)))"

fun int_digits :: "nat \<Rightarrow> string \<Rightarrow> nat option" where
  "int_digits acc [] = Some acc"
| "int_digits acc [c] = (if is_digit c then Some (10 * acc + digit_val c) else None)"
| "int_digits acc (c # d # cs) =
     (if is_digit c then int_digits (10 * acc + digit_val c) (d # cs)
      else if c = CHR ''_'' \<and> is_digit d then int_digits (10 * acc + digit_val d) cs
      else None)"

definition int_body :: "string \<Rightarrow> nat option" where
  "int_body s = (case s of [] \<Rightarrow> None
                 | c # cs \<Rightarrow> if is_digit c then int_digits (digit_val c) cs else None)"

definition py_int :: "string \<Rightarrow> int option" where
  "py_int s =
     (case strip s of
        [] \<Rightarrow> None
      | c # cs \<Rightarrow>
          if c = CHR ''-'' then map_option (\<lambda>n. - int n) (int_body cs)
          else if c = CHR ''+'' then map_option int (int_body cs)
          else map_option int (int_body (c # cs)))"

text \<open>
  Fixed-width decimal digits (the \<open>w\<close> low digits of \<open>n\<close>): what \<open>%0wd\<close> prints
  for \<open>0 \<le> n < 10 ^ w\<close>; it is used to state results, never by the code.
\<close>

primrec pad :: "nat \<Rightarrow> nat \<Rightarrow> string" where
  "pad 0 n = []"
| "pad (Suc w) n = pad w (n div 10) @ [digit_char (n mod 10)]"

text \<open>The value of a string of ASCII digits, read independently of \<open>py_int\<close>.\<close>

definition dec_value :: "string \<Rightarrow> nat" where
  "dec_value s = foldl (\<lambda>a c. 10 * a + digit_val c) 0 s"

section \<open>The backup directory\<close>

text \<open>
  A JSON document. A number is written as an integer or as a float, and the float is
  kept as the 64 bits of the IEEE 754 double it denotes.
\<close>

datatype json =
    JNull | JBool bool | JNum int | JFloat "64 word" | JStr string
  | JArr "json list" | JObj "(string \<times> json) list"

text \<open>
  A file holds a JSON document or text that \<open>json.load\<close> rejects. The JSON text
  layer itself (printing a document and parsing it back) is the standard library's and
  is taken to be the identity on documents.
\<close>

datatype payload = Document json | Unparsable

datatype entry = File payload | SubDir

text \<open>
  The directory \<open>app_dir / "backups" / dir_name\<close> of a dataset: missing (itself or one
  of its parents), blocked (the path exists and is not a directory), blocked above (one of
  its parents exists and is not a directory), or present with its entries, in the
  arbitrary order in which \<open>os.listdir\<close> returns them. The file system maps each
  \<open>dir_name\<close> to the state of its directory.
\<close>

datatype dir_state = Missing | Blocked | BlockedAbove | Present "(string \<times> entry) list"

type_synonym fs = "string \<Rightarrow> dir_state"

definition listdir :: "fs \<Rightarrow> string \<Rightarrow> error + string list" where
  "listdir fs p =
     (case fs p of
        Missing \<Rightarrow> Inl FileNotFoundError
      | Blocked \<Rightarrow> Inl NotADirectoryError
      | BlockedAbove \<Rightarrow> Inl NotADirectoryError
      | Present d \<Rightarrow> Inr (map fst d))"

text \<open>
  \<open>Path(p).mkdir(parents=True, exist_ok=True)\<close>: a file in the place of the directory
  is FileExistsError, a file in the place of one of its parents NotADirectoryError.
\<close>

definition mkdir_parents_exist_ok :: "fs \<Rightarrow> string \<Rightarrow> error + fs" where
  "mkdir_parents_exist_ok fs p =
     (case fs p of
        Missing \<Rightarrow> Inr (fs(p := Present []))
      | Blocked \<Rightarrow> Inl FileExistsError
      | BlockedAbove \<Rightarrow> Inl NotADirectoryError
      | Present d \<Rightarrow> Inr fs)"

text \<open>\<open>open(path, "r")\<close> followed by reading the whole file.\<close>

definition open_r :: "fs \<Rightarrow> string \<times> string \<Rightarrow> error + payload" where
  "open_r fs path =
     (case fs (fst path) of
        Missing \<Rightarrow> Inl FileNotFoundError
      | Blocked \<Rightarrow> Inl NotADirectoryError
      | BlockedAbove \<Rightarrow> Inl NotADirectoryError
      | Present d \<Rightarrow>
          (case map_of d (snd path) of
             None \<Rightarrow> Inl FileNotFoundError
           | Some SubDir \<Rightarrow> Inl IsADirectoryError
           | Some (File c) \<Rightarrow> Inr c))"

text \<open>
  \<open>open(path, "w")\<close>: the file is created, or truncated when it exists; a directory
  of that name is an error. \<open>put\<close> stores what is then written to the open file.
\<close>

definition put :: "fs \<Rightarrow> string \<times> string \<Rightarrow> payload \<Rightarrow> fs" where
  "put fs path c =
     (case fs (fst path) of
        Present d \<Rightarrow> fs(fst path := Present (AList.update (snd path) (File c) d))
      | _ \<Rightarrow> fs)"

definition open_w :: "fs \<Rightarrow> string \<times> string \<Rightarrow> error + fs" where
  "open_w fs path =
     (case fs (fst path) of
        Missing \<Rightarrow> Inl FileNotFoundError
      | Blocked \<Rightarrow> Inl NotADirectoryError
      | BlockedAbove \<Rightarrow> Inl NotADirectoryError
      | Present d \<Rightarrow>
          (case map_of d (snd path) of
             Some SubDir \<Rightarrow> Inl IsADirectoryError
           | _ \<Rightarrow> Inr (put fs path Unparsable)))"

section \<open>Dates and times\<close>

text \<open>
  \<open>datetime\<close> is a subclass of \<open>date\<close>. \<open>tzinfo\<close> is the UTC offset in
  microseconds of an aware value and \<open>None\<close> for a naive one. The constructors of
  Python accept exactly the valid values below.
\<close>

record date =
  year :: nat
  month :: nat
  day :: nat

record datetime = date +
  hour :: nat
  minute :: nat
  second :: nat
  microsecond :: nat
  tzinfo :: "int option"

definition is_leap :: "nat \<Rightarrow> bool" where
  "is_leap y = (y mod 4 = 0 \<and> (y mod 100 \<noteq> 0 \<or> y mod 400 = 0))"

definition days_in_month :: "nat \<Rightarrow> nat \<Rightarrow> nat" where
  "days_in_month y m =
     (if m = 2 then (if is_leap y then 29 else 28)
      else if m = 4 \<or> m = 6 \<or> m = 9 \<or> m = 11 then 30 else 31)"

definition valid_ymd :: "nat \<Rightarrow> nat \<Rightarrow> nat \<Rightarrow> bool" where
  "valid_ymd y m d =
     (1 \<le> y \<and> y \<le> 9999 \<and> 1 \<le> m \<and> m \<le> 12 \<and> 1 \<le> d \<and> d \<le> days_in_month y m)"

definition valid_offset :: "int option \<Rightarrow> bool" where
  "valid_offset tz =
     (case tz of None \<Rightarrow> True | Some off \<Rightarrow> - 86400000000 < off \<and> off < 86400000000)"

definition valid_datetime :: "datetime \<Rightarrow> bool" where
  "valid_datetime d =
     (valid_ymd (year d) (month d) (day d) \<and> hour d < 24 \<and> minute d < 60 \<and> second d < 60
      \<and> microsecond d < 1000000 \<and> valid_offset (tzinfo d))"

subsection \<open>\<open>isoformat\<close>\<close>

definition date_isoformat :: "'a date_scheme \<Rightarrow> string" where
  "date_isoformat d =
     fmt_d 4 (int (year d)) @ ''-'' @ fmt_d 2 (int (month d)) @ ''-'' @ fmt_d 2 (int (day d))"

definition format_time :: "nat \<Rightarrow> nat \<Rightarrow> nat \<Rightarrow> nat \<Rightarrow> string" where
  "format_time hh mm ss us =
     fmt_d 2 (int hh) @ '':'' @ fmt_d 2 (int mm) @ '':'' @ fmt_d 2 (int ss)
       @ (if us \<noteq> 0 then ''.'' @ fmt_d 6 (int us) else [])"

definition format_offset :: "int option \<Rightarrow> string" where
  "format_offset tz =
     (case tz of
        None \<Rightarrow> []
      | Some off \<Rightarrow>
          (let sign = (if off < 0 then ''-'' else ''+'');
               a = \<bar>off\<bar>;
               hh = a div 3600000000;
               mm = (a mod 3600000000) div 60000000;
               ss = (a mod 3600000000) mod 60000000
           in sign @ fmt_d 2 hh @ '':'' @ fmt_d 2 mm
                @ (if ss \<noteq> 0 then '':'' @ fmt_d 2 (ss div 1000000)
                     @ (if ss mod 1000000 \<noteq> 0 then ''.'' @ fmt_d 6 (ss mod 1000000) else [])
                   else [])))"

definition datetime_isoformat :: "datetime \<Rightarrow> string" where
  "datetime_isoformat d =
     date_isoformat d @ ''T'' @ format_time (hour d) (minute d) (second d) (microsecond d)
       @ format_offset (tzinfo d)"

subsection \<open>\<open>datetime.fromisoformat\<close>\<close>

text \<open>
  \<open>datetime.fromisoformat\<close> as CPython 3.11 implements it, in C, on the UTF-8 bytes of
  the string. It reads a date \<open>YYYY-MM-DD\<close>, \<open>YYYYMMDD\<close>, \<open>YYYY-Www[-D]\<close> or
  \<open>YYYYWww[D]\<close>, then optionally any one character and a time \<open>HH[:MM[:SS[.f+]]]\<close> or
  \<open>HH[MM[SS[.f+]]]\<close>, with an offset \<open>Z\<close> or a sign and \<open>HH[:MM[:SS[.f+]]]\<close>, and a
  few strings besides these that the C code lets through; the fields are then checked by
  the constructor. \<open>None\<close> stands for ValueError. The functions below follow the C
  functions of the same names: a pointer into the string is the list of the bytes from it
  on, and reading at the end of the string yields the terminating zero byte.
\<close>

definition utf8 :: "string \<Rightarrow> string" where
  "utf8 s = concat (map (\<lambda>c. if (of_char c :: nat) < 128 then [c]
                               else [char_of (192 + (of_char c :: nat) div 64),
                                     char_of (128 + (of_char c :: nat) mod 64)]) s)"

definition peek :: "string \<Rightarrow> char" where
  "peek p = (case p of [] \<Rightarrow> CHR 0x00 | c # cs \<Rightarrow> c)"

text \<open>\<open>parse_digits(p, &var, n)\<close>: exactly \<open>n\<close> ASCII digits, and the pointer after them.\<close>

definition parse_digits :: "string \<Rightarrow> nat \<Rightarrow> (nat \<times> string) option" where
  "parse_digits p n =
     (if n \<le> length p \<and> list_all is_digit (take n p) then Some (dec_value (take n p), drop n p)
      else None)"

text \<open>
  The calendar arithmetic of the ISO week dates. Days are counted from 1 January of
  year 1, which is day 1; a weekday is 0 for Monday to 6 for Sunday. The C code divides
  towards zero where \<open>div\<close> rounds down: the two differ only before day 1, on the days
  of the ISO year 0000, and the constructor rejects what either computes for them.
\<close>

definition days_before_year :: "int \<Rightarrow> int" where
  "days_before_year y = (y - 1) * 365 + (y - 1) div 4 - (y - 1) div 100 + (y - 1) div 400"

definition days_before_month :: "int \<Rightarrow> int \<Rightarrow> int" where
  "days_before_month y m =
     [0, 0, 31, 59, 90, 120, 151, 181, 212, 243, 273, 304, 334] ! nat m
       + (if m > 2 \<and> is_leap (nat y) then 1 else 0)"

definition ymd_to_ord :: "int \<Rightarrow> int \<Rightarrow> int \<Rightarrow> int" where
  "ymd_to_ord y m d = days_before_year y + days_before_month y m + d"

definition weekday :: "int \<Rightarrow> int \<Rightarrow> int \<Rightarrow> int" where
  "weekday y m d = (ymd_to_ord y m d + 6) mod 7"

definition iso_week1_monday :: "int \<Rightarrow> int" where
  "iso_week1_monday y =
     (let first_day = ymd_to_ord y 1 1;
          first_weekday = (first_day + 6) mod 7;
          week1_monday = first_day - first_weekday
      in if first_weekday > 3 then week1_monday + 7 else week1_monday)"

definition ord_to_ymd :: "int \<Rightarrow> int \<times> int \<times> int" where
  "ord_to_ymd ordinal =
     (let n = ordinal - 1;
          n400 = n div 146097; n = n mod 146097;
          n100 = n div 36524; n = n mod 36524;
          n4 = n div 1461; n = n mod 1461;
          n1 = n div 365; n = n mod 365;
          y = n400 * 400 + 1 + n100 * 100 + n4 * 4 + n1
      in if n1 = 4 \<or> n100 = 4 then (y - 1, 12, 31)
         else
           (let leap = (n1 = 3 \<and> (n4 \<noteq> 24 \<or> n100 = 3));
                m = (n + 50) div 32;
                preceding = [0, 0, 31, 59, 90, 120, 151, 181, 212, 243, 273, 304, 334] ! nat m
                              + (if m > 2 \<and> leap then 1 else 0)
            in if preceding > n
               then (y, m - 1, n - (preceding - int (days_in_month (nat y) (nat (m - 1)))) + 1)
               else (y, m, n - preceding + 1)))"

definition iso_to_ymd :: "nat \<Rightarrow> nat \<Rightarrow> nat \<Rightarrow> (nat \<times> nat \<times> nat) option" where
  "iso_to_ymd iso_year iso_week iso_day =
     (if (iso_week = 0 \<or> 53 \<le> iso_week)
         \<and> \<not> (iso_week = 53
               \<and> (weekday (int iso_year) 1 1 = 3
                   \<or> (weekday (int iso_year) 1 1 = 2 \<and> is_leap iso_year)))
      then None
      else if iso_day = 0 \<or> 8 \<le> iso_day then None
      else
        (case ord_to_ymd (iso_week1_monday (int iso_year)
                            + ((int iso_week - 1) * 7 + int iso_day - 1)) of
           (y, m, d) \<Rightarrow> Some (nat y, nat m, nat d)))"

text \<open>
  Where the date ends and the separator stands, from bytes 4, 5, 8 and 10; the string has
  at least seven bytes. \<open>None\<close> is the \<open>-1\<close> of the C function, returned for the nine
  bytes \<open>YYYY-Www-\<close>: the date parser, which reads the \<open>-1\<close> as an unsigned length,
  then fails for want of a day digit.
\<close>

definition find_isoformat_datetime_separator :: "string \<Rightarrow> nat option" where
  "find_isoformat_datetime_separator dtstr =
     (let len = length dtstr
      in if len = 7 then Some 7
         else if dtstr ! 4 = CHR ''-'' then
           (if dtstr ! 5 = CHR ''W'' then
              (if len < 8 then None
               else if len > 8 \<and> dtstr ! 8 = CHR ''-'' then
                 (if len = 9 then None
                  else if len > 10 \<and> is_digit (dtstr ! 10) then Some 8
                  else Some 10)
               else Some 8)
            else Some 10)
         else if dtstr ! 4 = CHR ''W'' then
           (let idx = 7 + length (takeWhile is_digit (drop 7 dtstr))
            in if idx < 9 then Some idx else if idx mod 2 = 0 then Some 7 else Some 8)
         else Some 8)"

definition parse_isoformat_date :: "string \<Rightarrow> nat \<Rightarrow> (nat \<times> nat \<times> nat) option" where
  "parse_isoformat_date dtstr len =
     (case parse_digits dtstr 4 of
        None \<Rightarrow> None
      | Some (y, p) \<Rightarrow>
          (let uses_separator = (peek p = CHR ''-'');
               p = (if uses_separator then tl p else p)
           in if peek p = CHR ''W'' then
                (case parse_digits (tl p) 2 of
                   None \<Rightarrow> None
                 | Some (iso_week, p) \<Rightarrow>
                     if length dtstr - length p < len then
                       (if uses_separator \<and> peek p \<noteq> CHR ''-'' then None
                        else (case parse_digits (if uses_separator then tl p else p) 1 of
                                None \<Rightarrow> None
                              | Some (iso_day, p) \<Rightarrow> iso_to_ymd y iso_week iso_day))
                     else iso_to_ymd y iso_week 1)
              else
                (case parse_digits p 2 of
                   None \<Rightarrow> None
                 | Some (m, p) \<Rightarrow>
                     if uses_separator \<and> peek p \<noteq> CHR ''-'' then None
                     else (case parse_digits (if uses_separator then tl p else p) 2 of
                             None \<Rightarrow> None
                           | Some (d, p) \<Rightarrow> Some (y, m, d)))))"

text \<open>
  \<open>parse_hh_mm_ss_ff(tstr, tstr_end, ...)\<close>. The loop over hours, minutes and seconds:
  \<open>i\<close> is its counter, \<open>p\<close> the pointer, \<open>n\<close> the distance from \<open>p\<close> to \<open>tstr_end\<close>
  and \<open>vals\<close> the fields read so far. It ends with \<open>Inl c\<close> when it returns at the end of
  the text, \<open>c\<close> being the last character read, and with \<open>Inr (p, n)\<close> when it goes on to
  the fraction. The function returns whether text is left over, and the hours, minutes,
  seconds and microseconds, a field that was not read being zero.
\<close>

function hh_mm_ss :: "nat \<Rightarrow> bool \<Rightarrow> string \<Rightarrow> nat \<Rightarrow> nat list
    \<Rightarrow> (nat list \<times> (char + string \<times> nat)) option" where
  "hh_mm_ss i has_separator p n vals =
     (if 3 \<le> i then Some (vals, Inr (p, n))
      else
        (case parse_digits p 2 of
           None \<Rightarrow> None
         | Some (v, p) \<Rightarrow>
             (let c = peek p;
                  has_separator = (if i = 0 then c = CHR '':'' else has_separator)
              in if n - 2 \<le> 1 then Some (vals @ [v], Inl c)
                 else if has_separator \<and> c = CHR '':''
                   then hh_mm_ss (i + 1) has_separator (tl p) (n - 3) (vals @ [v])
                 else if c = CHR ''.'' \<or> c = CHR '',''
                   then Some (vals @ [v], Inr (tl p, n - 3))
                 else if \<not> has_separator
                   then hh_mm_ss (i + 1) has_separator p (n - 2) (vals @ [v])
                 else None)))"
  by pat_completeness auto

termination hh_mm_ss
  by (relation "measure (\<lambda>(i, has_separator, p, n, vals). 3 - i)") auto

declare hh_mm_ss.simps [simp del]

definition parse_hh_mm_ss_ff :: "string \<Rightarrow> nat \<Rightarrow> (bool \<times> nat \<times> nat \<times> nat \<times> nat) option" where
  "parse_hh_mm_ss_ff tstr n =
     (case hh_mm_ss 0 True tstr n [] of
        None \<Rightarrow> None
      | Some (vals, Inl c) \<Rightarrow>
          Some (c \<noteq> CHR 0x00, (vals @ [0, 0]) ! 0, (vals @ [0, 0]) ! 1, (vals @ [0, 0]) ! 2, 0)
      | Some (vals, Inr (p, len_remains)) \<Rightarrow>
          (let to_parse = (if len_remains \<ge> 6 then 6 else len_remains)
           in case parse_digits p to_parse of
                None \<Rightarrow> None
              | Some (f, p) \<Rightarrow>
                  Some (peek (dropWhile is_digit p) \<noteq> CHR 0x00,
                        (vals @ [0, 0]) ! 0, (vals @ [0, 0]) ! 1, (vals @ [0, 0]) ! 2,
                        (if to_parse < 6 then f * [100000, 10000, 1000, 100, 10] ! (to_parse - 1)
                         else f))))"

definition is_tz :: "char \<Rightarrow> bool" where
  "is_tz c = (c = CHR ''Z'' \<or> c = CHR ''+'' \<or> c = CHR ''-'')"

text \<open>
  \<open>parse_isoformat_time\<close>: the time and, from the first \<open>Z\<close>, \<open>+\<close> or \<open>-\<close> on, the
  offset, as whole seconds and microseconds; \<open>None\<close> in their place when there is none.
\<close>

definition parse_isoformat_time ::
    "string \<Rightarrow> (nat \<times> nat \<times> nat \<times> nat \<times> (int \<times> int) option) option" where
  "parse_isoformat_time dtstr =
     (let tzinfo_pos = (if is_tz (peek dtstr) then 0
                        else Suc (length (takeWhile (\<lambda>c. \<not> is_tz c) (tl dtstr))))
      in case parse_hh_mm_ss_ff dtstr tzinfo_pos of
           None \<Rightarrow> None
         | Some (rv, hh, mm, ss, us) \<Rightarrow>
             if tzinfo_pos = length dtstr then (if rv then None else Some (hh, mm, ss, us, None))
             else if peek (drop tzinfo_pos dtstr) = CHR ''Z'' then
               (if peek (drop (tzinfo_pos + 1) dtstr) \<noteq> CHR 0x00 then None
                else Some (hh, mm, ss, us, Some (0, 0)))
             else
               (let tzsign = (if peek (drop tzinfo_pos dtstr) = CHR ''-'' then - 1 else 1 :: int)
                in case parse_hh_mm_ss_ff (drop (tzinfo_pos + 1) dtstr)
                          (length dtstr - (tzinfo_pos + 1)) of
                     None \<Rightarrow> None
                   | Some (rv, tzhour, tzminute, tzsecond, tzmicrosecond) \<Rightarrow>
                       if rv then None
                       else Some (hh, mm, ss, us,
                                  Some (tzsign * (int tzhour * 3600 + int tzminute * 60 + int tzsecond),
                                        tzsign * int tzmicrosecond))))"

text \<open>
  \<open>tzinfo_from_isoformat_results\<close>: an offset whose whole seconds are zero is UTC,
  whatever its microseconds.
\<close>

definition tzinfo_from_isoformat_results :: "(int \<times> int) option \<Rightarrow> int option" where
  "tzinfo_from_isoformat_results tz =
     (case tz of
        None \<Rightarrow> None
      | Some (tzoffset, tz_useconds) \<Rightarrow>
          if tzoffset = 0 then Some 0 else Some (tzoffset * 1000000 + tz_useconds))"

definition fromisoformat :: "string \<Rightarrow> datetime option" where
  "fromisoformat s =
     (if length s < 7 then None
      else
        (let dtstr = utf8 s; len = length dtstr
         in case find_isoformat_datetime_separator dtstr of
              None \<Rightarrow> None
            | Some separator_location \<Rightarrow>
                (case parse_isoformat_date dtstr separator_location of
                   None \<Rightarrow> None
                 | Some (y, m, d) \<Rightarrow>
                     (case (if len > separator_location
                            then parse_isoformat_time
                                   (drop (separator_location
                                          + (if (of_char (dtstr ! separator_location) :: nat) < 128
                                             then 1 else 2)) dtstr)
                            else Some (0, 0, 0, 0, None)) of
                        None \<Rightarrow> None
                      | Some (hh, mm, ss, us, tz) \<Rightarrow>
                          (let r = \<lparr>year = y, month = m, day = d, hour = hh, minute = mm,
                                     second = ss, microsecond = us,
                                     tzinfo = tzinfo_from_isoformat_results tz\<rparr>
                           in if valid_datetime r then Some r else None)))))"

section \<open>Python values, \<open>json.dump\<close> and \<open>json.load\<close>\<close>

text \<open>
  The values a row-record can hold. A \<open>float\<close> is the 64 bits of its IEEE 754 double.
  A \<open>dict\<close> keeps its items in insertion order and its keys, field names, are strings.
  \<open>PObject\<close> stands for a value of any other type (a \<open>Decimal\<close>, a \<open>set\<close>, bytes,
  ...), which \<open>json\<close> cannot serialise by itself.
\<close>

datatype pyval =
    PNone | PBool bool | PInt int | PFloat "64 word" | PStr string
  | PList "pyval list" | PDict "(string \<times> pyval) list"
  | PDatetime datetime | PDate date | PObject string

text \<open>
  A double is not a number when its exponent bits are all ones and its fraction is not
  zero. \<open>json\<close> writes every such value as \<open>NaN\<close>, which reads as one and the
  same quiet NaN; every other double is written with the digits that read back as the
  same double. \<open>written_float\<close> is the double that the text written for a float
  denotes.
\<close>

definition is_nan :: "64 word \<Rightarrow> bool" where
  "is_nan x = (0x7FF0000000000000 < take_bit 63 x)"

definition written_float :: "64 word \<Rightarrow> 64 word" where
  "written_float x = (if is_nan x then 0x7FF8000000000000 else x)"

text \<open>The \<open>default\<close> hook of \<open>write\<close>: a function that ends without \<open>return\<close> returns \<open>None\<close>.\<close>

fun datetime_json_serialize :: "pyval \<Rightarrow> pyval" where
  "datetime_json_serialize (PDatetime d) = PStr (datetime_isoformat d)"
| "datetime_json_serialize (PDate d) = PStr (date_isoformat d)"
| "datetime_json_serialize obj = PNone"

text \<open>
  \<open>json.dump(data, f, default=datetime_json_serialize)\<close>: the encoder calls \<open>default\<close>
  on a value it cannot serialise and encodes what it returns, here a string or \<open>None\<close>.
\<close>

fun json_dump :: "pyval \<Rightarrow> json" where
  "json_dump PNone = JNull"
| "json_dump (PBool b) = JBool b"
| "json_dump (PInt i) = JNum i"
| "json_dump (PFloat x) = JFloat (written_float x)"
| "json_dump (PStr s) = JStr s"
| "json_dump (PList xs) = JArr (map json_dump xs)"
| "json_dump (PDict kvs) = JObj (map (\<lambda>(k, v). (k, json_dump v)) kvs)"
| "json_dump obj =
     (case datetime_json_serialize obj of PStr s \<Rightarrow> JStr s | _ \<Rightarrow> JNull)"

text \<open>
  The \<open>object_hook\<close> of \<open>read\<close>. \<open>datetime.fromisoformat(value)\<close> raises TypeError
  for a value that is not a string and ValueError for a string it cannot parse; both are
  caught and the field is left as it is.
\<close>

fun py_fromisoformat :: "pyval \<Rightarrow> error + datetime" where
  "py_fromisoformat (PStr s) =
     (case fromisoformat s of None \<Rightarrow> Inl ValueError | Some d \<Rightarrow> Inr d)"
| "py_fromisoformat v = Inl TypeError"

fun deserialize_items :: "(string \<times> pyval) list \<Rightarrow> (string \<times> pyval) list \<Rightarrow> (string \<times> pyval) list" where
  "deserialize_items [] obj = obj"
| "deserialize_items ((field, val) # items) obj =
     deserialize_items items
       (case py_fromisoformat val of
          Inr d \<Rightarrow> AList.update field (PDatetime d) obj
        | Inl e \<Rightarrow> obj)"

definition datetime_json_deserialize :: "(string \<times> pyval) list \<Rightarrow> pyval" where
  "datetime_json_deserialize obj = PDict (deserialize_items obj obj)"

text \<open>
  \<open>dict(pairs)\<close>, as the decoder builds the object: a repeated key keeps its first
  position and takes its last value.
\<close>

definition py_dict :: "(string \<times> pyval) list \<Rightarrow> (string \<times> pyval) list" where
  "py_dict pairs = foldl (\<lambda>d kv. AList.update (fst kv) (snd kv) d) [] pairs"

fun json_load :: "json \<Rightarrow> pyval" where
  "json_load JNull = PNone"
| "json_load (JBool b) = PBool b"
| "json_load (JNum i) = PInt i"
| "json_load (JFloat x) = PFloat x"
| "json_load (JStr s) = PStr s"
| "json_load (JArr xs) = PList (map json_load xs)"
| "json_load (JObj kvs) =
     datetime_json_deserialize (py_dict (map (\<lambda>(k, v). (k, json_load v)) kvs))"

section \<open>\<open>BackupFile\<close>\<close>

record BackupFile =
  dir_name :: string
  file_name :: string
  revision_num_len :: nat

definition REVISION_START_FROM :: string where
  "REVISION_START_FROM = ''0001''"

definition backup_dir_path :: "BackupFile \<Rightarrow> string" where
  "backup_dir_path self = dir_name self"

definition BackupFile_init :: "string \<Rightarrow> string \<Rightarrow> fs \<Rightarrow> (error + BackupFile) \<times> fs" where
  "BackupFile_init dn fn fs =
     (let self = \<lparr>dir_name = dn, file_name = fn, revision_num_len = length REVISION_START_FROM\<rparr>
      in case mkdir_parents_exist_ok fs (backup_dir_path self) of
           Inl e \<Rightarrow> (Inl e, fs)
         | Inr fs' \<Rightarrow> (Inr self, fs'))"

text \<open>The entries of a listing whose names end with the file name of the dataset.\<close>

definition all_backups :: "string \<Rightarrow> string list \<Rightarrow> string list" where
  "all_backups fn names = filter (\<lambda>d. suffix fn d) names"

definition latest_revision :: "BackupFile \<Rightarrow> fs \<Rightarrow> error + string option" where
  "latest_revision self fs =
     (case listdir fs (backup_dir_path self) of
        Inl e \<Rightarrow> Inl e
      | Inr names \<Rightarrow>
          if all_backups (file_name self) names = [] then Inr None
          else Inr (Some (last (sort (all_backups (file_name self) names)))))"

text \<open>\<open>not latest_revision\<close>: \<open>None\<close> and the empty string are false.\<close>

fun py_not :: "string option \<Rightarrow> bool" where
  "py_not None = True"
| "py_not (Some s) = (s = [])"

definition make_next_revision_number :: "BackupFile \<Rightarrow> fs \<Rightarrow> error + string" where
  "make_next_revision_number self fs =
     (case latest_revision self fs of
        Inl e \<Rightarrow> Inl e
      | Inr None \<Rightarrow> Inl TypeError
      | Inr (Some r) \<Rightarrow>
          (case py_int (take (revision_num_len self) r) of
             None \<Rightarrow> Inl ValueError
           | Some n \<Rightarrow> Inr (fmt_d (revision_num_len self) (n + 1))))"

definition next_revision :: "BackupFile \<Rightarrow> fs \<Rightarrow> error + string" where
  "next_revision self fs =
     (case latest_revision self fs of
        Inl e \<Rightarrow> Inl e
      | Inr lr \<Rightarrow>
          if py_not lr then Inr (REVISION_START_FROM @ ''_'' @ file_name self)
          else (case make_next_revision_number self fs of
                  Inl e \<Rightarrow> Inl e
                | Inr next_revision_number \<Rightarrow>
                    Inr (next_revision_number
                         @ drop (revision_num_len self) (case lr of Some r \<Rightarrow> r | None \<Rightarrow> []))))"

definition new_file_path :: "BackupFile \<Rightarrow> fs \<Rightarrow> error + string \<times> string" where
  "new_file_path self fs =
     (case next_revision self fs of
        Inl e \<Rightarrow> Inl e
      | Inr r \<Rightarrow> Inr (backup_dir_path self, r))"

definition latest_file_path :: "BackupFile \<Rightarrow> fs \<Rightarrow> error + string \<times> string" where
  "latest_file_path self fs =
     (case latest_revision self fs of
        Inl e \<Rightarrow> Inl e
      | Inr lr \<Rightarrow>
          if \<not> py_not lr then
            (case latest_revision self fs of
               Inl e \<Rightarrow> Inl e
             | Inr lr' \<Rightarrow> Inr (backup_dir_path self, case lr' of Some r \<Rightarrow> r | None \<Rightarrow> []))
          else new_file_path self fs)"

text \<open>\<open>BackupFile.write\<close> (\<open>write\<close> is a keyword of Isar).\<close>

definition BackupFile_write :: "BackupFile \<Rightarrow> pyval \<Rightarrow> fs \<Rightarrow> (error + unit) \<times> fs" where
  "BackupFile_write self data fs =
     (case new_file_path self fs of
        Inl e \<Rightarrow> (Inl e, fs)
      | Inr path \<Rightarrow>
          (case open_w fs path of
             Inl e \<Rightarrow> (Inl e, fs)
           | Inr fs' \<Rightarrow> (Inr (), put fs' path (Document (json_dump data)))))"

definition read :: "BackupFile \<Rightarrow> fs \<Rightarrow> error + pyval" where
  "read self fs =
     (case latest_file_path self fs of
        Inl e \<Rightarrow> Inl e
      | Inr path \<Rightarrow>
          (case open_r fs path of
             Inl e \<Rightarrow> Inl e
           | Inr Unparsable \<Rightarrow> Inl JSONDecodeError
           | Inr (Document j) \<Rightarrow> Inr (json_load j)))"

section \<open>Notions used to state the results\<close>

text \<open>Several writes in a row, stopping at the first one that fails.\<close>

fun writes :: "BackupFile \<Rightarrow> pyval list \<Rightarrow> fs \<Rightarrow> (error + unit) \<times> fs" where
  "writes self [] fs = (Inr (), fs)"
| "writes self (x # xs) fs =
     (case BackupFile_write self x fs of
        (Inl e, fs') \<Rightarrow> (Inl e, fs')
      | (Inr u, fs') \<Rightarrow> writes self xs fs')"

text \<open>
  The name the specification gives to revision \<open>i\<close> of a dataset, and the directory it
  expects after each of \<open>datas\<close> has been written to an empty directory, in write order.
\<close>

definition revision_name :: "nat \<Rightarrow> string \<Rightarrow> string" where
  "revision_name i fn = pad 4 i @ ''_'' @ fn"

definition snapshot_dir :: "string \<Rightarrow> pyval list \<Rightarrow> (string \<times> entry) list" where
  "snapshot_dir fn datas =
     map (\<lambda>(i, x). (revision_name (Suc i) fn, File (Document (json_dump x)))) (enumerate 0 datas)"

text \<open>
  There is room for a next revision: no entry matches yet, or the greatest match starts
  with \<open>revision_num_len\<close> ASCII digits that are not all nines, followed by a rest that
  still ends with the file name.
\<close>

definition room_for_next :: "BackupFile \<Rightarrow> (string \<times> entry) list \<Rightarrow> bool" where
  "room_for_next self d =
     (let bs = all_backups (file_name self) (map fst d); w = revision_num_len self
      in bs = [] \<or>
         (0 < w \<and> w \<le> length (Max (set bs)) \<and> list_all is_digit (take w (Max (set bs)))
          \<and> dec_value (take w (Max (set bs))) + 1 < 10 ^ w
          \<and> suffix (file_name self) (drop w (Max (set bs)))))"

text \<open>
  What the specification says \<open>read\<close> does with the value of a field: a string that
  parses as an ISO 8601 datetime becomes that datetime, anything else stays as it is.
\<close>

definition iso_convert :: "pyval \<Rightarrow> pyval" where
  "iso_convert v =
     (case v of
        PStr s \<Rightarrow> (case fromisoformat s of Some d \<Rightarrow> PDatetime d | None \<Rightarrow> PStr s)
      | _ \<Rightarrow> v)"

text \<open>A sequence of row-records, as \<open>write\<close> receives it: a list of dicts.\<close>

definition row_records :: "(string \<times> pyval) list list \<Rightarrow> pyval" where
  "row_records recs = PList (map PDict recs)"

text \<open>
  A UTC offset that \<open>fromisoformat\<close> gives back as \<open>isoformat\<close> printed it: none,
  zero, or one second or more in either direction.
\<close>

definition offset_kept :: "int option \<Rightarrow> bool" where
  "offset_kept tz = (case tz of None \<Rightarrow> True | Some off \<Rightarrow> off = 0 \<or> 1000000 \<le> \<bar>off\<bar>)"

text \<open>
  The values that come back from a snapshot as they went in; \<open>field\<close> tells whether the
  value stands as the value of a field, that is, directly in a dict, where \<open>read\<close>
  tries \<open>fromisoformat\<close> on it. They are \<open>None\<close>, booleans, integers, floats that
  are numbers, strings (as the value of a field, only those that \<open>fromisoformat\<close>
  rejects), datetimes as the value of a field, with an offset that is kept, and lists and
  dicts of such values, the keys of a dict distinct.
\<close>

fun preserved :: "bool \<Rightarrow> pyval \<Rightarrow> bool" where
  "preserved field PNone = True"
| "preserved field (PBool b) = True"
| "preserved field (PInt i) = True"
| "preserved field (PFloat x) = (\<not> is_nan x)"
| "preserved field (PStr s) = (\<not> field \<or> fromisoformat s = None)"
| "preserved field (PDatetime d) = (field \<and> valid_datetime d \<and> offset_kept (tzinfo d))"
| "preserved field (PList xs) = (\<forall>x \<in> set xs. preserved False x)"
| "preserved field (PDict kvs) =
     (distinct (map fst kvs) \<and> (\<forall>kv \<in> set kvs. preserved True (snd kv)))"
| "preserved field (PDate d) = False"
| "preserved field (PObject t) = False"

text \<open>A value with every unsupported object in it, at any depth, replaced by \<open>None\<close>.\<close>

fun nullify :: "pyval \<Rightarrow> pyval" where
  "nullify (PObject t) = PNone"
| "nullify (PList xs) = PList (map nullify xs)"
| "nullify (PDict kvs) = PDict (map (\<lambda>(k, v). (k, nullify v)) kvs)"
| "nullify v = v"

text \<open>A handler and directories used as concrete inputs.\<close>

definition x_json :: BackupFile where
  "x_json = \<lparr>dir_name = ''migrations'', file_name = ''x.json'', revision_num_len = 4\<rparr>"

definition two_revisions :: "(string \<times> entry) list" where
  "two_revisions = [(''0001_x.json'', File (Document JNull)), (''notes.txt'', SubDir),
                    (''0002_x.json'', File (Document JNull))]"

definition overflowed :: "(string \<times> entry) list" where
  "overflowed = [(''9999_x.json'', File (Document JNull)), (''10000_x.json'', File (Document JNull))]"

definition midnight :: datetime where
  "midnight = \<lparr>year = 2024, month = 1, day = 1, hour = 0, minute = 0, second = 0,
               microsecond = 0, tzinfo = None\<rparr>"

section \<open>Restoring the table\<close>

text \<open>
  The tracked table is a list of rows, a row the field values given to the constructor of
  the model. The model class and its manager are collaborators of the restore: their
  operations are parameters, each free to fail, the delete and the insert also after
  changing part of the table.
\<close>

type_synonym row = "(string \<times> pyval) list"

type_synonym table = "row list"

record orm =
  construct :: "(string \<times> pyval) list \<Rightarrow> error + row"
  delete_all :: "table \<Rightarrow> (error + unit) \<times> table"
  bulk_create :: "row list \<Rightarrow> table \<Rightarrow> (error + unit) \<times> table"

text \<open>
  \<open>for migration in migrations_data\<close>: a list yields its items, a dict its keys, a
  string its characters; other values are not iterable.
\<close>

fun py_iter :: "pyval \<Rightarrow> error + pyval list" where
  "py_iter (PList xs) = Inr xs"
| "py_iter (PDict kvs) = Inr (map (\<lambda>kv. PStr (fst kv)) kvs)"
| "py_iter (PStr s) = Inr (map (\<lambda>c. PStr [c]) s)"
| "py_iter v = Inl TypeError"

text \<open>
  The loop of \<open>get_migrations_data_from_backup\<close>: \<open>Migration(**migration)\<close> for each
  item, which raises TypeError when the item is not a mapping.
\<close>

fun make_rows :: "orm \<Rightarrow> pyval list \<Rightarrow> error + row list" where
  "make_rows db [] = Inr []"
| "make_rows db (PDict migration # rest) =
     (case construct db migration of
        Inl e \<Rightarrow> Inl e
      | Inr r \<Rightarrow> (case make_rows db rest of Inl e \<Rightarrow> Inl e | Inr rs \<Rightarrow> Inr (r # rs)))"
| "make_rows db (v # rest) = Inl TypeError"

text \<open>Defined alike in \<open>MigrationRestore\<close> and in \<open>MigrationBackup\<close>.\<close>

definition get_migrations_data_from_backup :: "BackupFile \<Rightarrow> orm \<Rightarrow> fs \<Rightarrow> error + row list" where
  "get_migrations_data_from_backup file_handler db fs =
     (case read file_handler fs of
        Inl e \<Rightarrow> Inl e
      | Inr migrations_data \<Rightarrow>
          (case py_iter migrations_data of
             Inl e \<Rightarrow> Inl e
           | Inr items \<Rightarrow> make_rows db items))"

text \<open>
  \<open>@transaction.atomic\<close>: the body runs in a transaction of the database, committed
  when the body returns and rolled back when it raises.
\<close>

definition atomic :: "(table \<Rightarrow> (error + unit) \<times> table) \<Rightarrow> table \<Rightarrow> (error + unit) \<times> table" where
  "atomic body t = (case body t of (Inl e, t') \<Rightarrow> (Inl e, t) | (Inr u, t') \<Rightarrow> (Inr u, t'))"

text \<open>The body of \<open>MigrationRestore.restore\<close>, and the method as decorated.\<close>

definition restore_body :: "BackupFile \<Rightarrow> orm \<Rightarrow> fs \<Rightarrow> table \<Rightarrow> (error + unit) \<times> table" where
  "restore_body file_handler db fs t =
     (case get_migrations_data_from_backup file_handler db fs of
        Inl e \<Rightarrow> (Inl e, t)
      | Inr backup_migrations \<Rightarrow>
          (case delete_all db t of
             (Inl e, t') \<Rightarrow> (Inl e, t')
           | (Inr u, t') \<Rightarrow> bulk_create db backup_migrations t'))"

definition restore :: "BackupFile \<Rightarrow> orm \<Rightarrow> fs \<Rightarrow> table \<Rightarrow> (error + unit) \<times> table" where
  "restore file_handler db fs = atomic (restore_body file_handler db fs)"

text \<open>\<open>MigrationBackup.load\<close>\<close>

definition load :: "BackupFile \<Rightarrow> orm \<Rightarrow> fs \<Rightarrow> table \<Rightarrow> (error + unit) \<times> table" where
  "load file_handler db fs =
     atomic (\<lambda>t.
       case get_migrations_data_from_backup file_handler db fs of
         Inl e \<Rightarrow> (Inl e, t)
       | Inr backup_migrations \<Rightarrow>
           (case delete_all db t of
              (Inl e, t') \<Rightarrow> (Inl e, t')
            | (Inr u, t') \<Rightarrow> bulk_create db backup_migrations t'))"

text \<open>
  Concrete collaborators: one whose bulk insert fails after inserting the first row, one
  that works; and a directory with one snapshot of two rows.
\<close>

definition breaking_orm :: orm where
  "breaking_orm =
     \<lparr>construct = (\<lambda>kwargs. Inr kwargs),
      delete_all = (\<lambda>t. (Inr (), [])),
      bulk_create = (\<lambda>rows t. (Inl DatabaseError, t @ take 1 rows))\<rparr>"

definition one_snapshot :: fs where
  "one_snapshot =
     (\<lambda>_. Present [(''0001_x.json'',
                     File (Document (JArr [JObj [(''id'', JNum 1)], JObj [(''id'', JNum 2)]])))])"

definition plain_orm :: orm where
  "plain_orm =
     \<lparr>construct = (\<lambda>kwargs. Inr kwargs),
      delete_all = (\<lambda>t. (Inr (), [])),
      bulk_create = (\<lambda>rows t. (Inr (), t @ rows))\<rparr>"

section \<open>Decimal digits\<close>

lemma digit_char_eval:
  "digit_char 0 = CHR ''0''" "digit_char 1 = CHR ''1''" "digit_char 2 = CHR ''2''"
  "digit_char 3 = CHR ''3''" "digit_char 4 = CHR ''4''" "digit_char 5 = CHR ''5''"
  "digit_char 6 = CHR ''6''" "digit_char 7 = CHR ''7''" "digit_char 8 = CHR ''8''"
  "digit_char 9 = CHR ''9''" "digit_char (Suc 0) = CHR ''1''"
  by (code_simp)+

lemma of_char_digit_char: "n < 10 \<Longrightarrow> of_char (digit_char n) = 48 + n"
  by (simp add: digit_char_def)

lemma is_digit_iff: "is_digit c \<longleftrightarrow> 48 \<le> (of_char c :: nat) \<and> (of_char c :: nat) \<le> 57"
  by (simp add: is_digit_def less_eq_char_def)

lemma is_digit_digit_char: "n < 10 \<Longrightarrow> is_digit (digit_char n)"
  by (simp add: is_digit_iff of_char_digit_char)

lemma digit_val_digit_char: "n < 10 \<Longrightarrow> digit_val (digit_char n) = n"
  by (simp add: digit_val_def of_char_digit_char)

lemma digit_char_digit_val: "is_digit c \<Longrightarrow> digit_char (digit_val c) = c"
  by (simp add: is_digit_iff digit_val_def digit_char_def)

lemma digit_val_less: "is_digit c \<Longrightarrow> digit_val c < 10"
  by (auto simp add: is_digit_iff digit_val_def)

lemma digit_char_less: "m < n \<Longrightarrow> n < 10 \<Longrightarrow> digit_char m < digit_char n"
  by (simp add: less_char_def of_char_digit_char)

declare dec.simps [simp del]

lemma length_pad [simp]: "length (pad w n) = w"
  by (induction w arbitrary: n) auto

lemma digits_pad: "list_all is_digit (pad w n)"
  by (induction w arbitrary: n) (auto simp: is_digit_digit_char)

lemma dec_value_snoc: "dec_value (s @ [c]) = 10 * dec_value s + digit_val c"
  by (simp add: dec_value_def)

lemma dec_value_pad: "dec_value (pad w n) = n mod 10 ^ w"
proof (induction w arbitrary: n)
  case 0
  show ?case by (simp add: dec_value_def)
next
  case (Suc w)
  have "dec_value (pad (Suc w) n) = 10 * ((n div 10) mod 10 ^ w) + n mod 10"
    by (simp add: dec_value_snoc Suc digit_val_digit_char)
  also have "\<dots> = n mod 10 ^ Suc w"
    by (simp add: mod_mult2_eq)
  finally show ?case .
qed

lemma pad_dec_value: "list_all is_digit s \<Longrightarrow> pad (length s) (dec_value s) = s"
proof (induction s rule: rev_induct)
  case Nil
  show ?case by simp
next
  case (snoc c s)
  then have d: "is_digit c" and ds: "list_all is_digit s" by auto
  have v: "digit_val c < 10" using d by (rule digit_val_less)
  have "(10 * dec_value s + digit_val c) div 10 = dec_value s" using v by simp
  moreover have "(10 * dec_value s + digit_val c) mod 10 = digit_val c" using v by simp
  ultimately show ?case using snoc.IH ds d
    by (simp add: dec_value_snoc digit_char_digit_val)
qed

lemma dec_value_less: "list_all is_digit s \<Longrightarrow> dec_value s < 10 ^ length s"
proof (induction s rule: rev_induct)
  case Nil
  show ?case by (simp add: dec_value_def)
next
  case (snoc c s)
  then have "dec_value s < 10 ^ length s" and "digit_val c < 10"
    by (auto simp: digit_val_less)
  then have "10 * dec_value s + digit_val c < 10 * 10 ^ length s" by simp
  then show ?case by (simp add: dec_value_snoc)
qed

lemma dec_pad: "dec n = pad (length (dec n)) n"
proof (induction n rule: dec.induct)
  case (1 n)
  show ?case
  proof (cases "n < 10")
    case True
    then show ?thesis by (simp add: dec.simps[of n])
  next
    case False
    then show ?thesis using 1 by (simp add: dec.simps[of n])
  qed
qed

lemma length_dec: "0 < w \<Longrightarrow> n < 10 ^ w \<Longrightarrow> length (dec n) \<le> w"
proof (induction n arbitrary: w rule: dec.induct)
  case (1 n)
  show ?case
  proof (cases "n < 10")
    case True
    then show ?thesis using 1(2) by (simp add: dec.simps[of n])
  next
    case False
    obtain v where w: "w = Suc v" using 1(2) by (cases w) auto
    have "0 < v" using False 1(3) w by (cases v) auto
    moreover have "n div 10 < 10 ^ v" using 1(3) w by (simp add: less_mult_imp_div_less mult.commute)
    ultimately have "length (dec (n div 10)) \<le> v" using 1(1)[OF False] by simp
    then show ?thesis using False w by (simp add: dec.simps[of n])
  qed
qed

lemma pad_add: "n < 10 ^ k \<Longrightarrow> pad (j + k) n = replicate j CHR ''0'' @ pad k n"
proof (induction k arbitrary: n)
  case 0
  then have "n = 0" by simp
  have "pad j 0 = replicate j CHR ''0''"
    by (induction j) (simp_all add: digit_char_eval replicate_append_same)
  then show ?case using \<open>n = 0\<close> by simp
next
  case (Suc k)
  have "n div 10 < 10 ^ k" using Suc.prems by (simp add: less_mult_imp_div_less mult.commute)
  then show ?case using Suc.IH[of "n div 10"] by simp
qed

lemma less_pow_length_dec: "n < 10 ^ length (dec n)"
proof (induction n rule: dec.induct)
  case (1 n)
  show ?case
  proof (cases "n < 10")
    case True
    then show ?thesis by (simp add: dec.simps[of n])
  next
    case False
    have "n div 10 < 10 ^ length (dec (n div 10))" using 1[OF False] .
    then have "n < 10 * 10 ^ length (dec (n div 10))" by simp
    then show ?thesis using False by (simp add: dec.simps[of n])
  qed
qed

lemma zero_pad_dec: "0 < w \<Longrightarrow> n < 10 ^ w \<Longrightarrow> zero_pad w (dec n) = pad w n"
proof -
  assume w: "0 < w" and n: "n < 10 ^ w"
  have k: "length (dec n) \<le> w" using w n by (rule length_dec)
  have "pad ((w - length (dec n)) + length (dec n)) n
        = replicate (w - length (dec n)) CHR ''0'' @ pad (length (dec n)) n"
    using less_pow_length_dec by (rule pad_add)
  then show ?thesis using k dec_pad[of n] by (simp add: zero_pad_def)
qed

lemma fmt_d_pad: "0 < w \<Longrightarrow> n < 10 ^ w \<Longrightarrow> fmt_d w (int n) = pad w n"
  by (simp add: fmt_d_def zero_pad_dec)

lemma not_space_digit: "is_digit c \<Longrightarrow> \<not> py_isspace c"
  by (auto simp: is_digit_iff py_isspace_def)

lemma strip_digits: "list_all is_digit s \<Longrightarrow> strip s = s"
proof (cases s rule: rev_cases)
  case Nil
  then show ?thesis by (simp add: strip_def)
next
  case (snoc t c)
  assume d: "list_all is_digit s"
  have "s \<noteq> []" using snoc by simp
  then obtain a u where au: "s = a # u" by (auto simp: neq_Nil_conv)
  have "is_digit a" using d au by simp
  then have 1: "dropWhile py_isspace s = s" using au by (simp add: not_space_digit)
  have "is_digit c" using d snoc by simp
  then have 2: "dropWhile py_isspace (rev s) = rev s" using snoc by (simp add: not_space_digit)
  show ?thesis by (simp add: strip_def 1 2)
qed

lemma int_digits_foldl:
  "list_all is_digit cs \<Longrightarrow>
   int_digits acc cs = Some (foldl (\<lambda>a c. 10 * a + digit_val c) acc cs)"
  by (induction acc cs rule: int_digits.induct) auto

lemma int_body_digits:
  "s \<noteq> [] \<Longrightarrow> list_all is_digit s \<Longrightarrow> int_body s = Some (dec_value s)"
  by (cases s) (auto simp: int_body_def int_digits_foldl dec_value_def)

lemma digit_not_sign: "is_digit c \<Longrightarrow> c \<noteq> CHR ''-'' \<and> c \<noteq> CHR ''+''"
  by (auto simp: is_digit_iff)

lemma py_int_digits:
  "s \<noteq> [] \<Longrightarrow> list_all is_digit s \<Longrightarrow> py_int s = Some (int (dec_value s))"
proof -
  assume ne: "s \<noteq> []" and d: "list_all is_digit s"
  obtain a u where au: "s = a # u" using ne by (cases s) auto
  have "is_digit a" using d au by simp
  then have "a \<noteq> CHR ''-''" "a \<noteq> CHR ''+''" using digit_not_sign by auto
  moreover have "strip (a # u) = a # u" using strip_digits[OF d] au by simp
  moreover have "int_body (a # u) = Some (dec_value (a # u))"
    using int_body_digits[OF ne d] au by simp
  ultimately show ?thesis using au by (simp add: py_int_def)
qed

lemma pad_less: "m < n \<Longrightarrow> n < 10 ^ w \<Longrightarrow> pad w m < pad w n"
proof (induction w arbitrary: m n)
  case 0
  then show ?case by simp
next
  case (Suc w)
  have nd: "n div 10 < 10 ^ w" using Suc.prems(2) by (simp add: less_mult_imp_div_less mult.commute)
  show ?case
  proof (cases "m div 10 < n div 10")
    case True
    have "pad w (m div 10) < pad w (n div 10)" using Suc.IH[OF True nd] .
    then have "(pad w (m div 10) @ [digit_char (m mod 10)], pad w (n div 10) @ [digit_char (n mod 10)])
                 \<in> lexord {(u, v). u < v}"
      unfolding list_less_def by (rule lexord_sufI) simp
    then show ?thesis by (simp add: list_less_def)
  next
    case False
    have "m div 10 \<le> n div 10" using Suc.prems(1) by (simp add: div_le_mono)
    then have e: "m div 10 = n div 10" using False by simp
    have "m mod 10 < n mod 10"
      using Suc.prems(1) e by (metis div_mult_mod_eq nat_add_left_cancel_less)
    then have "digit_char (m mod 10) < digit_char (n mod 10)"
      by (rule digit_char_less) simp
    then show ?thesis
      by (simp add: e list_less_def lexord_append_left_rightI)
  qed
qed

lemma append_less_same_length:
  fixes a b :: string
  shows "a < b \<Longrightarrow> length a = length b \<Longrightarrow> a @ r < b @ r'"
  unfolding list_less_def by (rule lexord_sufI) simp_all

section \<open>The latest revision\<close>

lemma sorted_le_last: "sorted xs \<Longrightarrow> x \<in> set xs \<Longrightarrow> x \<le> last xs"
  by (induction xs) auto

lemma last_sort_Max: "xs \<noteq> [] \<Longrightarrow> last (sort xs) = Max (set xs)"
proof -
  assume ne: "xs \<noteq> []"
  have ne': "sort xs \<noteq> []" using ne by (metis length_sort length_0_conv)
  have "\<forall>x \<in> set xs. x \<le> last (sort xs)"
    using sorted_le_last[of "sort xs"] by simp
  moreover have "last (sort xs) \<in> set xs" using ne' last_in_set by fastforce
  ultimately show ?thesis by (intro Max_eqI[symmetric]) auto
qed

lemma latest_revision_Present:
  "fs (dir_name self) = Present d \<Longrightarrow>
   latest_revision self fs =
     Inr (if all_backups (file_name self) (map fst d) = [] then None
          else Some (Max (set (all_backups (file_name self) (map fst d)))))"
  by (simp add: latest_revision_def listdir_def backup_dir_path_def last_sort_Max)

lemma suffix_eval:
  "suffix xs [] = (xs = [])"
  "suffix xs (y # ys) = (xs = y # ys \<or> suffix xs ys)"
  by (auto simp: suffix_Cons)

text \<open>
  C6. When the directory holds no entry whose name ends with the file name of the
  dataset, the path that \<open>read\<close> opens is the not yet written first revision,
  \<open>0001_<name>\<close>, and \<open>read\<close> fails with FileNotFoundError instead of returning.
\<close>

theorem read_without_revision:
  assumes "fs (dir_name self) = Present d"
    and "all_backups (file_name self) (map fst d) = []"
  shows "latest_file_path self fs = Inr (dir_name self, ''0001_'' @ file_name self)
       \<and> read self fs = Inl FileNotFoundError"
proof -
  have lr: "latest_revision self fs = Inr None"
    using latest_revision_Present[of fs self d] assms by simp
  have nr: "next_revision self fs = Inr (''0001_'' @ file_name self)"
    by (simp add: next_revision_def lr REVISION_START_FROM_def)
  have p: "latest_file_path self fs = Inr (dir_name self, ''0001_'' @ file_name self)"
    by (simp add: latest_file_path_def lr new_file_path_def nr backup_dir_path_def)
  have "suffix (file_name self) (''0001_'' @ file_name self)"
    by (simp add: suffix_def)
  then have "''0001_'' @ file_name self \<notin> set (map fst d)"
    using assms(2) by (auto simp: all_backups_def filter_empty_conv)
  then have "map_of d (''0001_'' @ file_name self) = None"
    by (simp add: map_of_eq_None_iff)
  then show ?thesis using p assms(1) by (simp add: read_def open_r_def)
qed

theorem read_without_revision_witness:
  "all_backups ''x.json'' (map fst [(''notes.txt'', File Unparsable)]) = []
   \<and> latest_file_path \<lparr>dir_name = ''migrations'', file_name = ''x.json'', revision_num_len = 4\<rparr>
        (\<lambda>_. Present [(''notes.txt'', File Unparsable)]) = Inr (''migrations'', ''0001_x.json'')
   \<and> read \<lparr>dir_name = ''migrations'', file_name = ''x.json'', revision_num_len = 4\<rparr>
        (\<lambda>_. Present [(''notes.txt'', File Unparsable)]) = Inl FileNotFoundError"
proof -
  have h: "all_backups ''x.json'' (map fst [(''notes.txt'', File Unparsable)]) = []"
    by (simp add: all_backups_def suffix_eval)
  show ?thesis
    using h read_without_revision
      [of "\<lambda>_. Present [(''notes.txt'', File Unparsable)]"
          "\<lparr>dir_name = ''migrations'', file_name = ''x.json'', revision_num_len = 4\<rparr>"
          "[(''notes.txt'', File Unparsable)]"]
    by simp
qed

lemma latest_revision_Max:
  "fs (dir_name self) = Present d \<Longrightarrow> all_backups (file_name self) (map fst d) \<noteq> [] \<Longrightarrow>
   latest_revision self fs = Inr (Some (Max (set (all_backups (file_name self) (map fst d)))))"
  by (simp add: latest_revision_Present)

lemma next_revision_digits:
  assumes P: "fs (dir_name self) = Present d"
    and ne: "all_backups (file_name self) (map fst d) \<noteq> []"
    and mx: "Max (set (all_backups (file_name self) (map fst d))) = ds @ rest"
    and len: "length ds = revision_num_len self"
    and dig: "list_all is_digit ds"
    and pos: "ds \<noteq> []"
    and lt: "dec_value ds + 1 < 10 ^ length ds"
  shows "next_revision self fs = Inr (pad (length ds) (dec_value ds + 1) @ rest)"
proof -
  have lr: "latest_revision self fs = Inr (Some (ds @ rest))"
    using latest_revision_Max[of fs self d] P ne mx by simp
  have tk: "take (revision_num_len self) (ds @ rest) = ds" using len by simp
  have dr: "drop (revision_num_len self) (ds @ rest) = rest" using len by simp
  have w: "0 < length ds" using pos by simp
  have "fmt_d (length ds) (int (dec_value ds + 1)) = pad (length ds) (dec_value ds + 1)"
    using w lt by (rule fmt_d_pad)
  then have f: "fmt_d (revision_num_len self) (int (dec_value ds) + 1)
                = pad (length ds) (dec_value ds + 1)"
    using len by (simp add: add.commute)
  have mk: "make_next_revision_number self fs = Inr (pad (length ds) (dec_value ds + 1))"
    by (simp add: make_next_revision_number_def lr tk py_int_digits[OF pos dig] f del: take_append)
  show ?thesis using pos by (simp add: next_revision_def lr mk dr del: drop_append)
qed

lemma next_revision_first:
  assumes P: "fs (dir_name self) = Present d"
    and e: "all_backups (file_name self) (map fst d) = []"
  shows "next_revision self fs = Inr (''0001_'' @ file_name self)"
proof -
  have lr: "latest_revision self fs = Inr None"
    using latest_revision_Present[of fs self d] P e by simp
  show ?thesis by (simp add: next_revision_def lr REVISION_START_FROM_def)
qed

lemma update_fresh: "k \<notin> fst ` set al \<Longrightarrow> AList.update k v al = al @ [(k, v)]"
  by (induction al) auto

lemma update_fresh_again:
  "k \<notin> fst ` set al \<Longrightarrow> AList.update k v (al @ [(k, v')]) = al @ [(k, v)]"
  by (induction al) auto

lemma write_fresh:
  assumes P: "fs (dir_name self) = Present d"
    and nr: "next_revision self fs = Inr name"
    and fresh: "name \<notin> set (map fst d)"
  shows "BackupFile_write self data fs =
           (Inr (), fs(dir_name self := Present (d @ [(name, File (Document (json_dump data)))])))"
proof -
  have m: "map_of d name = None" using fresh by (simp add: map_of_eq_None_iff)
  have f: "name \<notin> fst ` set d" using fresh by simp
  show ?thesis
    using P m by (simp add: BackupFile_write_def new_file_path_def nr backup_dir_path_def
        open_w_def put_def update_fresh[OF f] update_fresh_again[OF f])
qed

lemma write_existing:
  assumes P: "fs (dir_name self) = Present d"
    and nr: "next_revision self fs = Inr name"
    and old: "map_of d name = Some (File c)"
  shows "BackupFile_write self data fs =
           (Inr (), fs(dir_name self := Present (AList.update name (File (Document (json_dump data))) d)))"
  using P old by (simp add: BackupFile_write_def new_file_path_def nr backup_dir_path_def
        open_w_def put_def)

text \<open>The name after the latest revision is a match greater than every match: it is new.\<close>

lemma next_name_fresh:
  assumes ne: "all_backups fn names \<noteq> []"
    and mx: "Max (set (all_backups fn names)) = ds @ rest"
    and dig: "list_all is_digit ds"
    and lt: "dec_value ds + 1 < 10 ^ length ds"
    and suf: "suffix fn rest"
  shows "pad (length ds) (dec_value ds + 1) @ rest \<notin> set names"
proof
  let ?new = "pad (length ds) (dec_value ds + 1) @ rest"
  assume "?new \<in> set names"
  moreover have "suffix fn ?new" using suf by (simp add: suffix_appendI)
  ultimately have "?new \<in> set (all_backups fn names)" by (simp add: all_backups_def)
  then have le: "?new \<le> ds @ rest" using mx by (metis Max_ge List.finite_set)
  have "pad (length ds) (dec_value ds) < pad (length ds) (dec_value ds + 1)"
    using lt by (intro pad_less) simp_all
  then have "ds < pad (length ds) (dec_value ds + 1)"
    using pad_dec_value[OF dig] by simp
  then have "ds @ rest < ?new" by (rule append_less_same_length) simp
  then show False using le by simp
qed

lemma first_name_fresh:
  assumes e: "all_backups fn names = []"
  shows "''0001_'' @ fn \<notin> set names"
proof
  assume "''0001_'' @ fn \<in> set names"
  moreover have "suffix fn (''0001_'' @ fn)" by (simp add: suffix_def)
  ultimately have "''0001_'' @ fn \<in> set (all_backups fn names)" by (simp add: all_backups_def)
  then show False using e by simp
qed

lemma next_revision_latest:
  assumes P: "fs (dir_name self) = Present d"
    and ne: "all_backups (file_name self) (map fst d) \<noteq> []"
    and w: "0 < revision_num_len self"
    and len: "revision_num_len self \<le> length (Max (set (all_backups (file_name self) (map fst d))))"
    and dig: "list_all is_digit (take (revision_num_len self) (Max (set (all_backups (file_name self) (map fst d)))))"
    and lt: "dec_value (take (revision_num_len self) (Max (set (all_backups (file_name self) (map fst d))))) + 1
               < 10 ^ revision_num_len self"
  shows "next_revision self fs =
           Inr (pad (revision_num_len self)
                  (dec_value (take (revision_num_len self) (Max (set (all_backups (file_name self) (map fst d))))) + 1)
                @ drop (revision_num_len self) (Max (set (all_backups (file_name self) (map fst d)))))"
proof -
  define r where "r = Max (set (all_backups (file_name self) (map fst d)))"
  define ds where "ds = take (revision_num_len self) r"
  define rest where "rest = drop (revision_num_len self) r"
  have l: "length ds = revision_num_len self" using len by (simp add: ds_def r_def)
  have mx: "Max (set (all_backups (file_name self) (map fst d))) = ds @ rest"
    by (simp add: ds_def rest_def r_def)
  have pos: "ds \<noteq> []" using l w by auto
  have "next_revision self fs = Inr (pad (length ds) (dec_value ds + 1) @ rest)"
    using P ne mx l _ pos
  proof (rule next_revision_digits)
    show "list_all is_digit ds" using dig by (simp add: ds_def r_def)
    show "dec_value ds + 1 < 10 ^ length ds" using lt l by (simp add: ds_def r_def)
  qed
  then show ?thesis using l by (simp add: ds_def rest_def r_def)
qed

lemma latest_revision_cong:
  assumes "latest_revision self fs = latest_revision self fs'"
  shows "next_revision self fs = next_revision self fs'"
proof -
  have m: "make_next_revision_number self fs = make_next_revision_number self fs'"
    by (simp add: make_next_revision_number_def assms)
  show ?thesis unfolding next_revision_def assms m ..
qed

lemma all_backups_filter:
  "all_backups fn (map fst (filter (\<lambda>e. suffix fn (fst e)) d)) = all_backups fn (map fst d)"
  by (induction d) (auto simp: all_backups_def)

text \<open>
  C5, as amended. The next revision depends on the directory only through the entries
  whose names end with the file name of the dataset. With no such entry it is
  \<open>0001_<name>\<close>. Otherwise, when the greatest such name \<open>r\<close> starts with \<open>w\<close> ASCII
  digits (\<open>w\<close> the revision width, 4) whose value is below \<open>10 ^ w - 1\<close>, it is that value
  plus one in \<open>w\<close> zero-padded digits, followed by the rest of \<open>r\<close> unchanged.
\<close>

theorem next_revision_computation:
  assumes P: "fs (dir_name self) = Present d"
  shows "next_revision self fs =
           next_revision self
             (fs(dir_name self := Present (filter (\<lambda>e. suffix (file_name self) (fst e)) d)))
       \<and> (all_backups (file_name self) (map fst d) = [] \<longrightarrow>
            next_revision self fs = Inr (''0001_'' @ file_name self))
       \<and> (all_backups (file_name self) (map fst d) \<noteq> []
           \<and> r = Max (set (all_backups (file_name self) (map fst d)))
           \<and> w = revision_num_len self \<and> 0 < w \<and> w \<le> length r
           \<and> list_all is_digit (take w r) \<and> dec_value (take w r) + 1 < 10 ^ w \<longrightarrow>
            next_revision self fs = Inr (pad w (dec_value (take w r) + 1) @ drop w r))"
proof (intro conjI impI)
  let ?fs' = "fs(dir_name self := Present (filter (\<lambda>e. suffix (file_name self) (fst e)) d))"
  have "?fs' (dir_name self) = Present (filter (\<lambda>e. suffix (file_name self) (fst e)) d)" by simp
  then have "latest_revision self ?fs' = latest_revision self fs"
    using latest_revision_Present[of ?fs' self] latest_revision_Present[of fs self d] P
    by (simp add: all_backups_filter)
  then show "next_revision self fs = next_revision self ?fs'"
    by (intro latest_revision_cong) simp
next
  assume "all_backups (file_name self) (map fst d) = []"
  then show "next_revision self fs = Inr (''0001_'' @ file_name self)"
    using P next_revision_first by blast
next
  assume a: "all_backups (file_name self) (map fst d) \<noteq> []
           \<and> r = Max (set (all_backups (file_name self) (map fst d)))
           \<and> w = revision_num_len self \<and> 0 < w \<and> w \<le> length r
           \<and> list_all is_digit (take w r) \<and> dec_value (take w r) + 1 < 10 ^ w"
  have ne: "all_backups (file_name self) (map fst d) \<noteq> []" using a by auto
  have r: "r = Max (set (all_backups (file_name self) (map fst d)))" using a by auto
  have w: "w = revision_num_len self" using a by auto
  have h1: "0 < w" using a by auto
  have h2: "w \<le> length r" using a by auto
  have h3: "list_all is_digit (take w r)" using a by auto
  have h4: "dec_value (take w r) + 1 < 10 ^ w" using a by auto
  show "next_revision self fs = Inr (pad w (dec_value (take w r) + 1) @ drop w r)"
    using P ne h1 h2 h3 h4 unfolding r w by (rule next_revision_latest)
qed

lemma write_in_room:
  assumes P: "fs (dir_name self) = Present d"
    and room: "room_for_next self d"
  shows "\<exists>name. name \<notin> set (map fst d)
          \<and> BackupFile_write self data fs =
              (Inr (), fs(dir_name self := Present (d @ [(name, File (Document (json_dump data)))])))"
proof (cases "all_backups (file_name self) (map fst d) = []")
  case True
  have "next_revision self fs = Inr (''0001_'' @ file_name self)"
    using P True by (rule next_revision_first)
  moreover have "''0001_'' @ file_name self \<notin> set (map fst d)"
    using True by (rule first_name_fresh)
  ultimately show ?thesis using write_fresh[of fs self d] P by blast
next
  case False
  define r where "r = Max (set (all_backups (file_name self) (map fst d)))"
  define w where "w = revision_num_len self"
  have h: "0 < w" "w \<le> length r" "list_all is_digit (take w r)"
    "dec_value (take w r) + 1 < 10 ^ w" "suffix (file_name self) (drop w r)"
    using room False by (simp_all add: room_for_next_def Let_def r_def w_def)
  have nr: "next_revision self fs = Inr (pad w (dec_value (take w r) + 1) @ drop w r)"
    using next_revision_latest[of fs self d] P False h by (simp add: r_def w_def)
  have lw: "length (take w r) = w" using h(2) by simp
  have "pad (length (take w r)) (dec_value (take w r) + 1) @ drop w r \<notin> set (map fst d)"
    using False _ h(3) _ h(5)
  proof (rule next_name_fresh)
    show "Max (set (all_backups (file_name self) (map fst d))) = take w r @ drop w r"
      by (simp add: r_def)
    show "dec_value (take w r) + 1 < 10 ^ length (take w r)" using h(4) lw by simp
  qed
  then have "pad w (dec_value (take w r) + 1) @ drop w r \<notin> set (map fst d)"
    using lw by simp
  then show ?thesis using write_fresh[of fs self d] P nr by blast
qed

text \<open>
  C4, as amended. In a directory with room for a next revision, a write succeeds, its
  file has a name no entry of the directory had, and the directory afterwards is the old
  one, entry for entry, followed by the new file.
\<close>

theorem write_creates_one_new_file:
  assumes "fs (dir_name self) = Present d"
    and "room_for_next self d"
  shows "\<exists>name. name \<notin> set (map fst d)
          \<and> BackupFile_write self data fs =
              (Inr (), fs(dir_name self := Present (d @ [(name, File (Document (json_dump data)))])))"
  using assms by (rule write_in_room)

lemma pad4: "pad 4 n = [digit_char (n div 10 div 10 div 10 mod 10), digit_char (n div 10 div 10 mod 10),
                        digit_char (n div 10 mod 10), digit_char (n mod 10)]"
proof -
  have "(4::nat) = Suc (Suc (Suc (Suc 0)))" by simp
  then show ?thesis by (simp only: pad.simps append.simps append_assoc)
qed

lemma dec_small: "n < 10 \<Longrightarrow> dec n = [digit_char n]"
  by (simp add: dec.simps[of n])

lemma dec_large: "10 \<le> n \<Longrightarrow> dec n = dec (n div 10) @ [digit_char (n mod 10)]"
  by (simp add: dec.simps[of n])

lemma two_revisions_backups:
  "all_backups (file_name x_json) (map fst two_revisions) = [''0001_x.json'', ''0002_x.json'']"
  by (simp add: all_backups_def suffix_eval x_json_def two_revisions_def)

lemma two_revisions_room: "room_for_next x_json two_revisions"
  unfolding room_for_next_def Let_def two_revisions_backups
  by (simp add: x_json_def suffix_eval is_digit_iff dec_value_def digit_val_def)

theorem next_revision_computation_witness:
  "all_backups (file_name x_json) (map fst two_revisions) \<noteq> []
   \<and> Max (set (all_backups (file_name x_json) (map fst two_revisions))) = ''0002_x.json''
   \<and> list_all is_digit (take 4 ''0002_x.json'') \<and> dec_value (take 4 ''0002_x.json'') + 1 < 10 ^ 4
   \<and> next_revision x_json (\<lambda>_. Present two_revisions) = Inr ''0003_x.json''"
proof -
  have m: "Max (set (all_backups (file_name x_json) (map fst two_revisions))) = ''0002_x.json''"
    unfolding two_revisions_backups by simp
  have d: "list_all is_digit (take 4 ''0002_x.json'')" by (simp add: is_digit_iff)
  have v: "dec_value (take 4 ''0002_x.json'') = 2" by (simp add: dec_value_def digit_val_def)
  have p: "pad 4 3 @ drop 4 ''0002_x.json'' = ''0003_x.json''"
    by (simp add: pad4 digit_char_eval)
  have ne: "all_backups (file_name x_json) (map fst two_revisions) \<noteq> []"
    by (simp add: two_revisions_backups)
  have w: "4 = revision_num_len x_json" by (simp add: x_json_def)
  have P: "(\<lambda>_. Present two_revisions) (dir_name x_json) = Present two_revisions" by simp
  have "all_backups (file_name x_json) (map fst two_revisions) \<noteq> []
         \<and> ''0002_x.json'' = Max (set (all_backups (file_name x_json) (map fst two_revisions)))
         \<and> 4 = revision_num_len x_json \<and> (0::nat) < 4 \<and> 4 \<le> length ''0002_x.json''
         \<and> list_all is_digit (take 4 ''0002_x.json'')
         \<and> dec_value (take 4 ''0002_x.json'') + 1 < 10 ^ 4 \<longrightarrow>
        next_revision x_json (\<lambda>_. Present two_revisions)
          = Inr (pad 4 (dec_value (take 4 ''0002_x.json'') + 1) @ drop 4 ''0002_x.json'')"
    using next_revision_computation
      [of "\<lambda>_. Present two_revisions" x_json two_revisions "''0002_x.json''" 4, OF P]
    by blast
  moreover have "dec_value (take 4 ''0002_x.json'') + 1 < 10 ^ 4" unfolding v by simp
  ultimately have "next_revision x_json (\<lambda>_. Present two_revisions)
          = Inr (pad 4 (dec_value (take 4 ''0002_x.json'') + 1) @ drop 4 ''0002_x.json'')"
    using ne m w d by simp
  then have "next_revision x_json (\<lambda>_. Present two_revisions) = Inr ''0003_x.json''"
    unfolding v using p by simp
  then show ?thesis using ne m d v by simp
qed

text \<open>
  After revision 9999 the number has five digits, and a greatest match without a number
  in front (here the bare file name) gives no next revision but ValueError.
\<close>

theorem next_revision_overflow:
  "next_revision x_json (\<lambda>_. Present [(''9999_x.json'', File (Document JNull))]) = Inr ''10000_x.json''
   \<and> next_revision x_json (\<lambda>_. Present [(''x.json'', File (Document JNull))]) = Inl ValueError"
proof -
  have a: "all_backups ''x.json'' [''9999_x.json''] = [''9999_x.json'']"
    "all_backups ''x.json'' [''x.json''] = [''x.json'']"
    by (simp_all add: all_backups_def suffix_eval)
  have l1: "latest_revision x_json (\<lambda>_. Present [(''9999_x.json'', File (Document JNull))])
              = Inr (Some ''9999_x.json'')"
    by (simp add: latest_revision_def listdir_def backup_dir_path_def x_json_def a)
  have l2: "latest_revision x_json (\<lambda>_. Present [(''x.json'', File (Document JNull))])
              = Inr (Some ''x.json'')"
    by (simp add: latest_revision_def listdir_def backup_dir_path_def x_json_def a)
  have i1: "py_int ''9999'' = Some 9999"
    using py_int_digits[of "''9999''"] by (simp add: is_digit_iff dec_value_def digit_val_def)
  have i2: "py_int ''x.js'' = None"
    by (simp add: py_int_def strip_def py_isspace_def int_body_def is_digit_iff)
  have f: "fmt_d 4 10000 = ''10000''"
    by (simp add: fmt_d_def zero_pad_def dec_small dec_large digit_char_eval)
  have m1: "make_next_revision_number x_json (\<lambda>_. Present [(''9999_x.json'', File (Document JNull))])
              = Inr ''10000''"
    unfolding make_next_revision_number_def l1 by (simp add: x_json_def i1 f)
  have m2: "make_next_revision_number x_json (\<lambda>_. Present [(''x.json'', File (Document JNull))])
              = Inl ValueError"
    unfolding make_next_revision_number_def l2 by (simp add: x_json_def i2)
  show ?thesis unfolding next_revision_def l1 l2 m1 m2 by (simp add: x_json_def)
qed

theorem write_creates_one_new_file_witness:
  "room_for_next x_json two_revisions
   \<and> (\<exists>name. name \<notin> set (map fst two_revisions)
        \<and> BackupFile_write x_json (PBool True) (\<lambda>_. Present two_revisions) =
            (Inr (), (\<lambda>_. Present two_revisions)
                       (dir_name x_json := Present (two_revisions @ [(name, File (Document (json_dump (PBool True))))]))))"
  using two_revisions_room
    write_creates_one_new_file[of "\<lambda>_. Present two_revisions" x_json two_revisions "PBool True"]
  by simp

text \<open>
  With revisions 9999 and 10000 present the latest revision is still 9999, for the order
  of names: the write goes to the existing file of revision 10000 and replaces its content.
\<close>

theorem write_overwrites_after_overflow:
  "fst (BackupFile_write x_json (PBool True) (\<lambda>_. Present overflowed)) = Inr ()
   \<and> snd (BackupFile_write x_json (PBool True) (\<lambda>_. Present overflowed)) ''migrations''
       = Present [(''9999_x.json'', File (Document JNull)), (''10000_x.json'', File (Document (JBool True)))]"
proof -
  let ?fs = "\<lambda>_::string. Present overflowed"
  have a: "all_backups ''x.json'' [''9999_x.json'', ''10000_x.json''] = [''9999_x.json'', ''10000_x.json'']"
    by (simp add: all_backups_def suffix_eval)
  have s: "last (sort [''9999_x.json'', ''10000_x.json'']) = ''9999_x.json''" by simp
  have l: "latest_revision x_json ?fs = Inr (Some ''9999_x.json'')"
    unfolding latest_revision_def listdir_def backup_dir_path_def overflowed_def
    by (simp add: x_json_def a)
  have i: "py_int ''9999'' = Some 9999"
    using py_int_digits[of "''9999''"] by (simp add: is_digit_iff dec_value_def digit_val_def)
  have f: "fmt_d 4 10000 = ''10000''"
    by (simp add: fmt_d_def zero_pad_def dec_small dec_large digit_char_eval)
  have m: "make_next_revision_number x_json ?fs = Inr ''10000''"
    unfolding make_next_revision_number_def l by (simp add: x_json_def i f)
  have n: "next_revision x_json ?fs = Inr ''10000_x.json''"
    unfolding next_revision_def l m by (simp add: x_json_def)
  have old: "map_of overflowed ''10000_x.json'' = Some (File (Document JNull))"
    by (simp add: overflowed_def)
  have "BackupFile_write x_json (PBool True) ?fs =
          (Inr (), ?fs(dir_name x_json := Present (AList.update ''10000_x.json'' (File (Document (json_dump (PBool True)))) overflowed)))"
    using write_existing[of "\<lambda>_. Present overflowed" x_json overflowed "''10000_x.json''" "Document JNull" "PBool True"]
      n old by simp
  then show ?thesis by (simp add: x_json_def overflowed_def)
qed

section \<open>Consecutive writes\<close>

lemma writes_append:
  "writes self (xs @ ys) fs =
     (case writes self xs fs of (Inl e, fs') \<Rightarrow> (Inl e, fs') | (Inr u, fs') \<Rightarrow> writes self ys fs')"
  by (induction xs arbitrary: fs) (auto split: prod.splits sum.splits)

lemma snapshot_dir_snoc:
  "snapshot_dir fn (xs @ [x]) =
     snapshot_dir fn xs @ [(revision_name (Suc (length xs)) fn, File (Document (json_dump x)))]"
  by (simp add: snapshot_dir_def enumerate_append_eq)

lemma snapshot_dir_names:
  "map fst (snapshot_dir fn xs) = map (\<lambda>i. revision_name (Suc i) fn) [0..<length xs]"
  by (induction xs rule: rev_induct) (simp_all add: snapshot_dir_snoc, simp add: snapshot_dir_def)

lemma suffix_revision_name: "suffix fn (revision_name i fn)"
  by (simp add: revision_name_def suffix_def)

lemma snapshot_dir_all_backups:
  "all_backups fn (map fst (snapshot_dir fn xs)) = map fst (snapshot_dir fn xs)"
  by (simp add: all_backups_def snapshot_dir_names suffix_revision_name)

lemma revision_name_mono:
  "i < j \<Longrightarrow> j < 10000 \<Longrightarrow> revision_name i fn < revision_name j fn"
  unfolding revision_name_def
  by (rule append_less_same_length) (simp_all add: pad_less)

lemma snapshot_dir_Max:
  assumes "xs \<noteq> []" and "length xs < 10000"
  shows "Max (set (map fst (snapshot_dir fn xs))) = revision_name (length xs) fn"
proof (rule Max_eqI)
  show "finite (set (map fst (snapshot_dir fn xs)))" by simp
next
  fix y assume "y \<in> set (map fst (snapshot_dir fn xs))"
  then obtain i where i: "i < length xs" and y: "y = revision_name (Suc i) fn"
    by (auto simp: snapshot_dir_names)
  show "y \<le> revision_name (length xs) fn"
  proof (cases "Suc i = length xs")
    case True
    then show ?thesis using y by simp
  next
    case False
    then have "Suc i < length xs" using i by simp
    then show ?thesis using y assms(2) revision_name_mono[of "Suc i" "length xs" fn] by simp
  qed
next
  obtain k where k: "length xs = Suc k" using assms(1) by (cases xs) auto
  then have "revision_name (Suc k) fn \<in> set (map fst (snapshot_dir fn xs))"
    by (simp add: snapshot_dir_names)
  then show "revision_name (length xs) fn \<in> set (map fst (snapshot_dir fn xs))" using k by simp
qed

lemma pad4_one: "pad 4 (Suc 0) = ''0001''"
  by (simp add: pad4 digit_char_eval)

lemma write_next_snapshot:
  assumes w: "revision_num_len self = 4"
    and P: "fs (dir_name self) = Present (snapshot_dir (file_name self) xs)"
    and n: "Suc (length xs) < 10000"
  shows "BackupFile_write self x fs =
           (Inr (), fs(dir_name self := Present (snapshot_dir (file_name self) (xs @ [x]))))"
proof (cases "xs = []")
  case True
  have d: "snapshot_dir (file_name self) xs = []" using True by (simp add: snapshot_dir_def)
  have nr: "next_revision self fs = Inr (''0001_'' @ file_name self)"
    using P by (intro next_revision_first[of fs self "[]"]) (simp_all add: d all_backups_def)
  have "BackupFile_write self x fs =
          (Inr (), fs(dir_name self := Present ([] @ [(''0001_'' @ file_name self, File (Document (json_dump x)))])))"
    using P nr by (intro write_fresh) (simp_all add: d)
  then show ?thesis using True by (simp add: snapshot_dir_def revision_name_def pad4_one)
next
  case False
  let ?d = "snapshot_dir (file_name self) xs"
  let ?ds = "pad 4 (length xs)"
  let ?rest = "''_'' @ file_name self"
  have ne: "all_backups (file_name self) (map fst ?d) \<noteq> []"
    unfolding snapshot_dir_all_backups using False by (simp add: snapshot_dir_names)
  have mx: "Max (set (all_backups (file_name self) (map fst ?d))) = ?ds @ ?rest"
    using snapshot_dir_Max[OF False, of "file_name self"] n
    by (simp add: snapshot_dir_all_backups revision_name_def)
  have len: "length ?ds = revision_num_len self" using w by simp
  have dig: "list_all is_digit ?ds" by (rule digits_pad)
  have pos: "?ds \<noteq> []" by (simp add: pad4)
  have v: "dec_value ?ds = length xs" using n by (simp add: dec_value_pad)
  have lt: "dec_value ?ds + 1 < 10 ^ length ?ds" using n v by simp
  have nr: "next_revision self fs = Inr (pad (length ?ds) (dec_value ?ds + 1) @ ?rest)"
    using P ne mx len dig pos lt by (rule next_revision_digits)
  have fresh: "pad (length ?ds) (dec_value ?ds + 1) @ ?rest \<notin> set (map fst ?d)"
    using ne mx dig lt by (rule next_name_fresh) (simp add: suffix_def)
  have "BackupFile_write self x fs =
          (Inr (), fs(dir_name self := Present (?d @ [(pad (length ?ds) (dec_value ?ds + 1) @ ?rest, File (Document (json_dump x)))])))"
    using P nr fresh by (rule write_fresh)
  then show ?thesis using v by (simp add: snapshot_dir_snoc revision_name_def)
qed

lemma writes_snapshot:
  assumes w: "revision_num_len self = 4"
  shows "fs (dir_name self) = Present (snapshot_dir (file_name self) xs) \<Longrightarrow>
         length xs + length datas < 10000 \<Longrightarrow>
         writes self datas fs =
           (Inr (), fs(dir_name self := Present (snapshot_dir (file_name self) (xs @ datas))))"
proof (induction datas arbitrary: xs fs)
  case Nil
  then show ?case by (simp add: fun_upd_idem)
next
  case (Cons x datas)
  let ?fs = "fs(dir_name self := Present (snapshot_dir (file_name self) (xs @ [x])))"
  have s: "BackupFile_write self x fs = (Inr (), ?fs)"
    using w Cons.prems by (intro write_next_snapshot) simp_all
  have "writes self datas ?fs =
          (Inr (), ?fs(dir_name self := Present (snapshot_dir (file_name self) ((xs @ [x]) @ datas))))"
    using Cons.prems by (intro Cons.IH) simp_all
  then have t: "writes self datas ?fs =
          (Inr (), fs(dir_name self := Present (snapshot_dir (file_name self) (xs @ x # datas))))"
    by simp
  have "writes self (x # datas) fs = writes self datas ?fs"
    unfolding writes.simps s by simp
  then show ?case unfolding t .
qed

lemma next_revision_from_latest:
  assumes lr: "latest_revision self fs = Inr (Some r)"
    and ne: "r \<noteq> []"
    and pi: "py_int (take (revision_num_len self) r) = Some n"
  shows "next_revision self fs =
           Inr (fmt_d (revision_num_len self) (n + 1) @ drop (revision_num_len self) r)"
proof -
  have mk: "make_next_revision_number self fs = Inr (fmt_d (revision_num_len self) (n + 1))"
    by (simp add: make_next_revision_number_def lr pi)
  show ?thesis using ne by (simp add: next_revision_def lr mk)
qed

lemma length_snapshot_dir [simp]: "length (snapshot_dir fn xs) = length xs"
  by (simp add: snapshot_dir_def)

lemma length_snapshot_name:
  "y \<in> set (map fst (snapshot_dir fn xs)) \<Longrightarrow> length y = 5 + length fn"
  by (auto simp: snapshot_dir_names revision_name_def)

lemma snapshot_prefixes:
  "map (take 4 \<circ> fst) (snapshot_dir fn xs) = map (pad 4) [1..<Suc (length xs)]"
proof -
  have "map (take 4 \<circ> fst) (snapshot_dir fn xs) = map (take 4) (map fst (snapshot_dir fn xs))"
    by simp
  also have "\<dots> = map (\<lambda>i. pad 4 (Suc i)) [0..<length xs]"
    unfolding snapshot_dir_names by (simp add: revision_name_def)
  also have "\<dots> = map (pad 4) (map Suc [0..<length xs])" by simp
  also have "map Suc [0..<length xs] = [1..<Suc (length xs)]"
    by (simp add: map_Suc_upt)
  finally show ?thesis .
qed

text \<open>
  C3, as amended. Starting from an empty directory, fewer than 10000 consecutive writes
  all succeed, and the directory then holds, in write order, one file per write, the
  \<open>k\<close>-th named by \<open>k\<close> in four zero-padded digits, an underscore and the file name:
  the prefixes are \<open>0001\<close>, \<open>0002\<close>, ...
\<close>

theorem consecutive_writes:
  assumes "revision_num_len self = 4"
    and "fs (dir_name self) = Present []"
    and "length datas < 10000"
  shows "writes self datas fs =
           (Inr (), fs(dir_name self := Present (snapshot_dir (file_name self) datas)))
       \<and> map (take 4 \<circ> fst) (snapshot_dir (file_name self) datas)
           = map (pad 4) [1..<Suc (length datas)]"
proof -
  have "fs (dir_name self) = Present (snapshot_dir (file_name self) [])"
    using assms(2) by (simp add: snapshot_dir_def)
  then have "writes self datas fs =
           (Inr (), fs(dir_name self := Present (snapshot_dir (file_name self) ([] @ datas))))"
    using assms(1,3) by (intro writes_snapshot) simp_all
  then show ?thesis by (simp add: snapshot_prefixes)
qed

theorem consecutive_writes_witness:
  "writes x_json [PNone, PBool True, PInt 3] (\<lambda>_. Present []) =
     (Inr (), (\<lambda>_. Present [])
        (''migrations'' := Present [(''0001_x.json'', File (Document JNull)),
                                    (''0002_x.json'', File (Document (JBool True))),
                                    (''0003_x.json'', File (Document (JNum 3)))]))
   \<and> map (take 4 \<circ> fst) (snapshot_dir ''x.json'' [PNone, PBool True, PInt 3])
       = [''0001'', ''0002'', ''0003'']"
proof -
  have d: "digit_char (Suc (Suc 0)) = CHR ''2''" "digit_char (Suc (Suc (Suc 0))) = CHR ''3''"
    by code_simp+
  have s: "snapshot_dir ''x.json'' [PNone, PBool True, PInt 3]
           = [(''0001_x.json'', File (Document JNull)),
              (''0002_x.json'', File (Document (JBool True))),
              (''0003_x.json'', File (Document (JNum 3)))]"
    by (simp add: snapshot_dir_def revision_name_def pad4 digit_char_eval d)
  have "revision_num_len x_json = 4" "(\<lambda>_. Present []) (dir_name x_json) = Present []"
       "length [PNone, PBool True, PInt 3] < 10000"
    by (simp_all add: x_json_def)
  then have "writes x_json [PNone, PBool True, PInt 3] (\<lambda>_. Present []) =
           (Inr (), (\<lambda>_. Present [])(dir_name x_json := Present (snapshot_dir (file_name x_json) [PNone, PBool True, PInt 3])))"
    using consecutive_writes[of x_json "\<lambda>_. Present []" "[PNone, PBool True, PInt 3]"] by blast
  then show ?thesis unfolding s by (simp add: x_json_def s)
qed

lemma nines: "revision_name 9999 ''x.json'' = ''9999_x.json''"
  by (simp add: revision_name_def pad4 digit_char_eval)

lemma py_int_nines: "py_int ''9999'' = Some 9999"
  using py_int_digits[of "''9999''"] by (simp add: is_digit_iff dec_value_def digit_val_def)

lemma fmt_ten_thousand: "fmt_d 4 10000 = ''10000''"
  by (simp add: fmt_d_def zero_pad_def dec_small dec_large digit_char_eval)

text \<open>
  With 10001 writes the claim fails: the file of revision 10000 sorts below that of
  revision 9999, the last write goes to it again, and the directory holds 10000 files,
  the last with the data of the last write.
\<close>

theorem writes_past_9999:
  "fst (writes x_json (replicate 9999 PNone @ [PNone, PBool True]) (\<lambda>_. Present [])) = Inr ()
   \<and> snd (writes x_json (replicate 9999 PNone @ [PNone, PBool True]) (\<lambda>_. Present [])) ''migrations''
       = Present (snapshot_dir ''x.json'' (replicate 9999 PNone)
                  @ [(''10000_x.json'', File (Document (JBool True)))])
   \<and> snd (writes x_json (replicate 9999 PNone @ [PNone, PBool True]) (\<lambda>_. Present [])) ''migrations''
       \<noteq> Present (snapshot_dir ''x.json'' (replicate 9999 PNone @ [PNone, PBool True]))"
proof -
  define D where "D = snapshot_dir ''x.json'' (replicate 9999 PNone)"
  define fs1 where "fs1 = (\<lambda>_::string. Present [])(''migrations'' := Present D)"
  define fs2 where "fs2 = fs1(''migrations'' := Present (D @ [(''10000_x.json'', File (Document JNull))]))"
  define fs3 where "fs3 = fs2(''migrations'' := Present (D @ [(''10000_x.json'', File (Document (JBool True)))]))"
  have w: "revision_num_len x_json = 4" and dn: "dir_name x_json = ''migrations''"
    and fn: "file_name x_json = ''x.json''"
    by (simp_all add: x_json_def)
  have ab: "all_backups ''x.json'' (map fst D) = map fst D"
    unfolding D_def by (rule snapshot_dir_all_backups)
  have neD: "map fst D \<noteq> []" by (simp add: D_def snapshot_dir_names)
  have mxD: "Max (set (map fst D)) = ''9999_x.json''"
    unfolding D_def using snapshot_dir_Max[of "replicate 9999 PNone" "''x.json''"] nines by simp
  have fresh: "''10000_x.json'' \<notin> set (map fst D)"
    using length_snapshot_name[of "''10000_x.json''" "''x.json''" "replicate 9999 PNone"]
    unfolding D_def by auto
  have s1: "writes x_json (replicate 9999 PNone) (\<lambda>_. Present []) = (Inr (), fs1)"
  proof -
    have "(\<lambda>_. Present []) (dir_name x_json) = Present (snapshot_dir (file_name x_json) [])"
      by (simp add: snapshot_dir_def)
    then have "writes x_json (replicate 9999 PNone) (\<lambda>_. Present []) =
      (Inr (), (\<lambda>_. Present [])(dir_name x_json := Present (snapshot_dir (file_name x_json) ([] @ replicate 9999 PNone))))"
      using w by (intro writes_snapshot) simp_all
    then show ?thesis by (simp add: fs1_def D_def dn fn)
  qed
  have P1: "fs1 (dir_name x_json) = Present D" by (simp add: fs1_def dn)
  have "all_backups (file_name x_json) (map fst D) \<noteq> []" unfolding fn ab by (rule neD)
  then have "latest_revision x_json fs1
               = Inr (Some (Max (set (all_backups (file_name x_json) (map fst D)))))"
    using latest_revision_Max[of fs1 x_json D] P1 by blast
  then have l1: "latest_revision x_json fs1 = Inr (Some ''9999_x.json'')"
    unfolding fn ab mxD .
  have n1: "next_revision x_json fs1 = Inr ''10000_x.json''"
    using next_revision_from_latest[of x_json fs1 "''9999_x.json''" 9999] l1
    by (simp add: w py_int_nines fmt_ten_thousand)
  have s2: "BackupFile_write x_json PNone fs1 = (Inr (), fs2)"
    using write_fresh[of fs1 x_json D "''10000_x.json''" PNone] P1 n1 fresh
    by (simp add: fs2_def dn)
  let ?D2 = "D @ [(''10000_x.json'', File (Document JNull))]"
  have P2: "fs2 (dir_name x_json) = Present ?D2" by (simp add: fs2_def dn)
  have ab2: "all_backups ''x.json'' (map fst ?D2) = map fst D @ [''10000_x.json'']"
    using ab by (simp add: all_backups_def suffix_eval)
  have "Max (set (map fst D @ [''10000_x.json''])) = max ''10000_x.json'' (Max (set (map fst D)))"
    using neD by (simp add: Max_insert)
  then have mx2: "Max (set (map fst D @ [''10000_x.json''])) = ''9999_x.json''"
    unfolding mxD by (simp add: max_def)
  have "all_backups (file_name x_json) (map fst ?D2) \<noteq> []" unfolding fn ab2 by simp
  then have "latest_revision x_json fs2
               = Inr (Some (Max (set (all_backups (file_name x_json) (map fst ?D2)))))"
    using latest_revision_Max[of fs2 x_json ?D2] P2 by blast
  then have l2: "latest_revision x_json fs2 = Inr (Some ''9999_x.json'')"
    unfolding fn ab2 mx2 .
  have n2: "next_revision x_json fs2 = Inr ''10000_x.json''"
    using next_revision_from_latest[of x_json fs2 "''9999_x.json''" 9999] l2
    by (simp add: w py_int_nines fmt_ten_thousand)
  have "map_of D ''10000_x.json'' = None" using fresh by (simp add: map_of_eq_None_iff)
  then have old: "map_of ?D2 ''10000_x.json'' = Some (File (Document JNull))"
    by (simp add: map_add_def)
  have f: "''10000_x.json'' \<notin> fst ` set D" using fresh by simp
  have "BackupFile_write x_json (PBool True) fs2 =
          (Inr (), fs2(dir_name x_json := Present (AList.update ''10000_x.json'' (File (Document (json_dump (PBool True)))) ?D2)))"
    using P2 n2 old by (rule write_existing)
  then have s3: "BackupFile_write x_json (PBool True) fs2 = (Inr (), fs3)"
    by (simp add: fs3_def dn update_fresh_again[OF f])
  have "writes x_json [PNone, PBool True] fs1 = (Inr (), fs3)"
    by (simp add: s2 s3)
  then have all: "writes x_json (replicate 9999 PNone @ [PNone, PBool True]) (\<lambda>_. Present []) = (Inr (), fs3)"
    unfolding writes_append s1 by simp
  have r: "fs3 ''migrations'' = Present (D @ [(''10000_x.json'', File (Document (JBool True)))])"
    by (simp add: fs3_def)
  have "length (D @ [(''10000_x.json'', File (Document (JBool True)))])
        \<noteq> length (snapshot_dir ''x.json'' (replicate 9999 PNone @ [PNone, PBool True]))"
    by (simp add: D_def)
  then have "D @ [(''10000_x.json'', File (Document (JBool True)))]
        \<noteq> snapshot_dir ''x.json'' (replicate 9999 PNone @ [PNone, PBool True])"
    by metis
  then show ?thesis unfolding all using r by (simp add: D_def)
qed

section \<open>Reading the latest revision\<close>

lemma read_of_latest:
  assumes P: "fs (dir_name self) = Present d"
    and lr: "latest_revision self fs = Inr (Some r)"
    and ne: "r \<noteq> []"
  shows "read self fs =
           (case map_of d r of
              None \<Rightarrow> Inl FileNotFoundError
            | Some SubDir \<Rightarrow> Inl IsADirectoryError
            | Some (File Unparsable) \<Rightarrow> Inl JSONDecodeError
            | Some (File (Document j)) \<Rightarrow> Inr (json_load j))"
proof -
  have p: "latest_file_path self fs = Inr (dir_name self, r)"
    using ne by (simp add: latest_file_path_def lr backup_dir_path_def)
  show ?thesis
    by (simp add: read_def p open_r_def P split: option.splits entry.splits payload.splits)
qed

text \<open>
  C7. \<open>read\<close> parses the entry whose name is the greatest, in the order of strings, among
  those ending with the file name of the dataset; after two writes to an empty directory
  of the dataset \<open>x.json\<close> the files are \<open>0001_x.json\<close> and \<open>0002_x.json\<close> and \<open>read\<close>
  returns what the second file holds.
\<close>

theorem read_latest_revision:
  "(fs (dir_name self) = Present d \<and> all_backups (file_name self) (map fst d) \<noteq> []
      \<and> r = Max (set (all_backups (file_name self) (map fst d))) \<and> r \<noteq> [] \<longrightarrow>
    read self fs =
      (case map_of d r of
         None \<Rightarrow> Inl FileNotFoundError
       | Some SubDir \<Rightarrow> Inl IsADirectoryError
       | Some (File Unparsable) \<Rightarrow> Inl JSONDecodeError
       | Some (File (Document j)) \<Rightarrow> Inr (json_load j)))
   \<and> (file_name self = ''x.json'' \<and> revision_num_len self = 4 \<and> fs0 (dir_name self) = Present [] \<longrightarrow>
        fst (writes self [a, b] fs0) = Inr ()
        \<and> snd (writes self [a, b] fs0) (dir_name self)
            = Present [(''0001_x.json'', File (Document (json_dump a))),
                       (''0002_x.json'', File (Document (json_dump b)))]
        \<and> read self (snd (writes self [a, b] fs0)) = Inr (json_load (json_dump b)))"
proof (intro conjI impI)
  assume a: "fs (dir_name self) = Present d \<and> all_backups (file_name self) (map fst d) \<noteq> []
      \<and> r = Max (set (all_backups (file_name self) (map fst d))) \<and> r \<noteq> []"
  then have "latest_revision self fs = Inr (Some r)"
    using latest_revision_Max[of fs self d] by blast
  then show "read self fs =
      (case map_of d r of
         None \<Rightarrow> Inl FileNotFoundError
       | Some SubDir \<Rightarrow> Inl IsADirectoryError
       | Some (File Unparsable) \<Rightarrow> Inl JSONDecodeError
       | Some (File (Document j)) \<Rightarrow> Inr (json_load j))"
    using a read_of_latest[of fs self d r] by blast
next
  assume h: "file_name self = ''x.json'' \<and> revision_num_len self = 4 \<and> fs0 (dir_name self) = Present []"
  let ?d = "[(''0001_x.json'', File (Document (json_dump a))),
             (''0002_x.json'', File (Document (json_dump b)))]"
  have s: "snapshot_dir ''x.json'' [a, b] = ?d"
  proof -
    have "digit_char (Suc (Suc 0)) = CHR ''2''" by code_simp
    then show ?thesis by (simp add: snapshot_dir_def revision_name_def pad4 digit_char_eval)
  qed
  have "fs0 (dir_name self) = Present (snapshot_dir (file_name self) [])"
    using h by (simp add: snapshot_dir_def)
  then have "writes self [a, b] fs0 =
      (Inr (), fs0(dir_name self := Present (snapshot_dir (file_name self) ([] @ [a, b]))))"
    using h by (intro writes_snapshot) simp_all
  then have w: "writes self [a, b] fs0 = (Inr (), fs0(dir_name self := Present ?d))"
    using h s by simp
  let ?fs = "fs0(dir_name self := Present ?d)"
  have P: "?fs (dir_name self) = Present ?d" by simp
  have ab: "all_backups (file_name self) (map fst ?d) = [''0001_x.json'', ''0002_x.json'']"
    using h by (simp add: all_backups_def suffix_eval)
  have mx: "Max (set [''0001_x.json'', ''0002_x.json'']) = ''0002_x.json''" by simp
  have "all_backups (file_name self) (map fst ?d) \<noteq> []" unfolding ab by simp
  then have "latest_revision self ?fs
      = Inr (Some (Max (set (all_backups (file_name self) (map fst ?d)))))"
    using latest_revision_Max[of ?fs self ?d] P by blast
  then have lr: "latest_revision self ?fs = Inr (Some ''0002_x.json'')"
    unfolding ab mx .
  have rd: "read self ?fs = Inr (json_load (json_dump b))"
    using read_of_latest[of ?fs self ?d "''0002_x.json''"] P lr by simp
  show "fst (writes self [a, b] fs0) = Inr ()" unfolding w by simp
  show "snd (writes self [a, b] fs0) (dir_name self)
            = Present [(''0001_x.json'', File (Document (json_dump a))),
                       (''0002_x.json'', File (Document (json_dump b)))]"
    unfolding w by simp
  show "read self (snd (writes self [a, b] fs0)) = Inr (json_load (json_dump b))"
    unfolding w using rd by simp
qed

theorem read_latest_revision_witness:
  "all_backups (file_name x_json) (map fst two_revisions) \<noteq> []
   \<and> Max (set (all_backups (file_name x_json) (map fst two_revisions))) = ''0002_x.json''
   \<and> read x_json (\<lambda>_. Present two_revisions) = Inr PNone
   \<and> read x_json (snd (writes x_json [PInt 1, PInt 2] (\<lambda>_. Present []))) = Inr (PInt 2)"
proof -
  have ne: "all_backups (file_name x_json) (map fst two_revisions) \<noteq> []"
    by (simp add: two_revisions_backups)
  have m: "Max (set (all_backups (file_name x_json) (map fst two_revisions))) = ''0002_x.json''"
    unfolding two_revisions_backups by simp
  have P: "(\<lambda>_. Present two_revisions) (dir_name x_json) = Present two_revisions" by simp
  have mo: "map_of two_revisions ''0002_x.json'' = Some (File (Document JNull))"
    by (simp add: two_revisions_def)
  have "read x_json (\<lambda>_. Present two_revisions) =
      (case map_of two_revisions ''0002_x.json'' of
         None \<Rightarrow> Inl FileNotFoundError
       | Some SubDir \<Rightarrow> Inl IsADirectoryError
       | Some (File Unparsable) \<Rightarrow> Inl JSONDecodeError
       | Some (File (Document j)) \<Rightarrow> Inr (json_load j))"
    using read_latest_revision[of "\<lambda>_. Present two_revisions" x_json two_revisions "''0002_x.json''"]
      P ne m by simp
  then have r1: "read x_json (\<lambda>_. Present two_revisions) = Inr PNone"
    unfolding mo by simp
  have "file_name x_json = ''x.json'' \<and> revision_num_len x_json = 4
        \<and> (\<lambda>_. Present []) (dir_name x_json) = Present []"
    by (simp add: x_json_def)
  then have "read x_json (snd (writes x_json [PInt 1, PInt 2] (\<lambda>_. Present [])))
               = Inr (json_load (json_dump (PInt 2)))"
    using read_latest_revision[of _ x_json _ _ "\<lambda>_. Present []" "PInt 1" "PInt 2"] by blast
  then show ?thesis using ne m r1 by simp
qed

section \<open>\<open>fromisoformat\<close> after \<open>isoformat\<close>\<close>

lemma peek_Nil [simp]: "peek [] = CHR 0x00"
  by (simp add: peek_def)

lemma peek_Cons [simp]: "peek (c # cs) = c"
  by (simp add: peek_def)

lemma parse_digits_pad: "n < 10 ^ w \<Longrightarrow> parse_digits (pad w n @ rest) w = Some (n, rest)"
  by (simp add: parse_digits_def digits_pad dec_value_pad)

lemma pad2: "pad 2 n = [digit_char (n div 10 mod 10), digit_char (n mod 10)]"
proof -
  have "pad (Suc (Suc 0)) n = [digit_char (n div 10 mod 10), digit_char (n mod 10)]" by simp
  then show ?thesis by (simp add: numeral_2_eq_2)
qed

lemma digit_char_not:
  "digit_char (n mod 10) \<noteq> CHR ''W''" "digit_char (n mod 10) \<noteq> CHR ''-''"
  "digit_char (n mod 10) \<noteq> CHR ''+''" "digit_char (n mod 10) \<noteq> CHR ''Z''"
  "digit_char (n mod 10) \<noteq> CHR '':''" "digit_char (n mod 10) \<noteq> CHR ''.''"
  "digit_char (n mod 10) \<noteq> CHR '',''" "digit_char (n mod 10) \<noteq> CHR 0x00"
  using is_digit_digit_char[of "n mod 10"] by (auto simp: is_digit_iff)

lemma hh_mm_ss_pad:
  assumes "v < 100" "i < 3"
  shows "hh_mm_ss i has_separator (pad 2 v @ p) n vals =
     (if n - 2 \<le> 1 then Some (vals @ [v], Inl (peek p))
      else if (if i = 0 then peek p = CHR '':'' else has_separator) \<and> peek p = CHR '':''
        then hh_mm_ss (i + 1) (if i = 0 then peek p = CHR '':'' else has_separator) (tl p) (n - 3)
               (vals @ [v])
      else if peek p = CHR ''.'' \<or> peek p = CHR '',''
        then Some (vals @ [v], Inr (tl p, n - 3))
      else if \<not> (if i = 0 then peek p = CHR '':'' else has_separator)
        then hh_mm_ss (i + 1) (if i = 0 then peek p = CHR '':'' else has_separator) p (n - 2)
               (vals @ [v])
      else None)"
proof -
  have "parse_digits (pad 2 v @ p) 2 = Some (v, p)"
    using assms by (intro parse_digits_pad) simp
  then show ?thesis
    using assms by (subst hh_mm_ss.simps) (simp add: Let_def)
qed

lemma hms_5:
  assumes "h < 100" "m < 100"
  shows "parse_hh_mm_ss_ff (pad 2 h @ '':'' @ pad 2 m @ rest) 5
           = Some (peek rest \<noteq> CHR 0x00, h, m, 0, 0)"
proof -
  have "hh_mm_ss 0 True (pad 2 h @ '':'' @ pad 2 m @ rest) 5 [] = Some ([h, m], Inl (peek rest))"
    using assms by (simp add: hh_mm_ss_pad)
  then show ?thesis by (simp add: parse_hh_mm_ss_ff_def)
qed

lemma hms_8:
  assumes "h < 100" "m < 100" "s < 100"
  shows "parse_hh_mm_ss_ff (pad 2 h @ '':'' @ pad 2 m @ '':'' @ pad 2 s @ rest) 8
           = Some (peek rest \<noteq> CHR 0x00, h, m, s, 0)"
proof -
  have "hh_mm_ss 0 True (pad 2 h @ '':'' @ pad 2 m @ '':'' @ pad 2 s @ rest) 8 []
          = Some ([h, m, s], Inl (peek rest))"
    using assms by (simp add: hh_mm_ss_pad)
  then show ?thesis by (simp add: parse_hh_mm_ss_ff_def)
qed

lemma hms_15:
  assumes "h < 100" "m < 100" "s < 100" "f < 1000000"
  shows "parse_hh_mm_ss_ff (pad 2 h @ '':'' @ pad 2 m @ '':'' @ pad 2 s @ ''.'' @ pad 6 f @ rest) 15
           = Some (peek (dropWhile is_digit rest) \<noteq> CHR 0x00, h, m, s, f)"
proof -
  have 4: "parse_digits (pad 6 f @ rest) 6 = Some (f, rest)"
    using assms by (intro parse_digits_pad) simp
  have "hh_mm_ss 0 True (pad 2 h @ '':'' @ pad 2 m @ '':'' @ pad 2 s @ ''.'' @ pad 6 f @ rest) 15 []
          = Some ([h, m, s], Inr (pad 6 f @ rest, 6))"
    using assms by (simp add: hh_mm_ss_pad)
  then show ?thesis by (simp add: parse_hh_mm_ss_ff_def 4)
qed

lemma fmt_d_nat: "0 < w \<Longrightarrow> 0 \<le> i \<Longrightarrow> nat i < 10 ^ w \<Longrightarrow> fmt_d w i = pad w (nat i)"
  using fmt_d_pad[of w "nat i"] by simp

lemma format_time_pad:
  assumes "h < 24" "m < 60" "s < 60" "us < 1000000"
  shows "format_time h m s us =
           pad 2 h @ '':'' @ pad 2 m @ '':'' @ pad 2 s @ (if us \<noteq> 0 then ''.'' @ pad 6 us else [])"
  using assms by (simp add: format_time_def fmt_d_pad)

lemma date_isoformat_pad:
  assumes "valid_ymd (year d) (month d) (day d)"
  shows "date_isoformat d = pad 4 (year d) @ ''-'' @ pad 2 (month d) @ ''-'' @ pad 2 (day d)"
proof -
  have "day d \<le> 31" using assms by (auto simp: valid_ymd_def days_in_month_def split: if_splits)
  then show ?thesis using assms by (simp add: date_isoformat_def valid_ymd_def fmt_d_pad)
qed

lemma length_date_isoformat:
  "valid_ymd (year d) (month d) (day d) \<Longrightarrow> length (date_isoformat d) = 10"
  by (simp add: date_isoformat_pad)

lemma offset_parts:
  fixes a :: int
  assumes "0 \<le> a" "a < 86400000000"
  defines "hh \<equiv> a div 3600000000"
    and "mm \<equiv> (a mod 3600000000) div 60000000"
    and "ss \<equiv> (a mod 3600000000) mod 60000000"
  shows "0 \<le> hh" "nat hh < 100" "0 \<le> mm" "nat mm < 100" "0 \<le> ss"
    "0 \<le> ss div 1000000" "nat (ss div 1000000) < 100"
    "0 \<le> ss mod 1000000" "nat (ss mod 1000000) < 1000000"
    "hh * 3600000000 + mm * 60000000 + (ss div 1000000) * 1000000 + ss mod 1000000 = a"
proof -
  show "0 \<le> hh" using assms(1) by (simp add: hh_def)
  have "hh < 24" unfolding hh_def using assms(2) by (simp add: div_less_iff_less_mult)
  then show "nat hh < 100" by simp
  show "0 \<le> mm" by (simp add: mm_def)
  have "a mod 3600000000 < 3600000000" by simp
  then have "mm < 60" unfolding mm_def by (simp add: div_less_iff_less_mult)
  then show "nat mm < 100" by simp
  show "0 \<le> ss" by (simp add: ss_def)
  show "0 \<le> ss div 1000000" by (simp add: ss_def)
  have "ss < 60000000" by (simp add: ss_def)
  then have "ss div 1000000 < 60" by (simp add: div_less_iff_less_mult)
  then show "nat (ss div 1000000) < 100" by simp
  show "0 \<le> ss mod 1000000" by simp
  have "ss mod 1000000 < 1000000" by simp
  then show "nat (ss mod 1000000) < 1000000" by simp
  have 1: "(ss div 1000000) * 1000000 + ss mod 1000000 = ss" by simp
  have 2: "mm * 60000000 + ss = a mod 3600000000" by (simp add: mm_def ss_def)
  have 3: "hh * 3600000000 + a mod 3600000000 = a" by (simp add: hh_def)
  show "hh * 3600000000 + mm * 60000000 + (ss div 1000000) * 1000000 + ss mod 1000000 = a"
    using 1 2 3 by linarith
qed

lemma format_offset_None [simp]: "format_offset None = []"
  by (simp add: format_offset_def)

lemma format_offset_pad:
  assumes "- 86400000000 < off" "off < 86400000000"
  shows "format_offset (Some off) =
           (if off < 0 then CHR ''-'' else CHR ''+'')
           # pad 2 (nat (\<bar>off\<bar> div 3600000000)) @ '':''
           @ pad 2 (nat (\<bar>off\<bar> mod 3600000000 div 60000000))
           @ (if \<bar>off\<bar> mod 3600000000 mod 60000000 \<noteq> 0
              then '':'' @ pad 2 (nat (\<bar>off\<bar> mod 3600000000 mod 60000000 div 1000000))
                   @ (if \<bar>off\<bar> mod 3600000000 mod 60000000 mod 1000000 \<noteq> 0
                      then ''.'' @ pad 6 (nat (\<bar>off\<bar> mod 3600000000 mod 60000000 mod 1000000))
                      else [])
              else [])"
proof -
  define a where "a = \<bar>off\<bar>"
  define hh where "hh = a div 3600000000"
  define mm where "mm = (a mod 3600000000) div 60000000"
  define ss where "ss = (a mod 3600000000) mod 60000000"
  have a: "0 \<le> a" "a < 86400000000" using assms by (auto simp: a_def)
  note p = offset_parts[OF a, folded hh_def mm_def ss_def]
  have h1: "fmt_d 2 hh = pad 2 (nat hh)" using p by (intro fmt_d_nat) simp_all
  have h2: "fmt_d 2 mm = pad 2 (nat mm)" using p by (intro fmt_d_nat) simp_all
  have h3: "fmt_d 2 (ss div 1000000) = pad 2 (nat (ss div 1000000))"
    using p by (intro fmt_d_nat) simp_all
  have h4: "fmt_d 6 (ss mod 1000000) = pad 6 (nat (ss mod 1000000))"
    using p by (intro fmt_d_nat) simp_all
  have "format_offset (Some off) =
          (if off < 0 then ''-'' else ''+'') @ fmt_d 2 hh @ '':'' @ fmt_d 2 mm
            @ (if ss \<noteq> 0 then '':'' @ fmt_d 2 (ss div 1000000)
                 @ (if ss mod 1000000 \<noteq> 0 then ''.'' @ fmt_d 6 (ss mod 1000000) else [])
               else [])"
    unfolding format_offset_def Let_def hh_def mm_def ss_def a_def by (simp only: option.case)
  then have "format_offset (Some off) =
          (if off < 0 then CHR ''-'' else CHR ''+'') # pad 2 (nat hh) @ '':'' @ pad 2 (nat mm)
            @ (if ss \<noteq> 0 then '':'' @ pad 2 (nat (ss div 1000000))
                 @ (if ss mod 1000000 \<noteq> 0 then ''.'' @ pad 6 (nat (ss mod 1000000)) else [])
               else [])"
    unfolding h1 h2 h3 h4 by (simp del: mod_mod_trivial)
  then show ?thesis unfolding hh_def mm_def ss_def a_def .
qed

text \<open>
  The offset that \<open>isoformat\<close> prints is a sign and a body that parses to the end, into
  the hours, minutes, seconds and microseconds of the offset.
\<close>

lemma parse_format_offset:
  assumes "- 86400000000 < off" "off < 86400000000"
  shows "\<exists>c body th tm ts us. format_offset (Some off) = c # body
           \<and> c = (if off < 0 then CHR ''-'' else CHR ''+'')
           \<and> parse_hh_mm_ss_ff body (length body) = Some (False, th, tm, ts, us)
           \<and> us < 1000000
           \<and> \<bar>off\<bar> = (int th * 3600 + int tm * 60 + int ts) * 1000000 + int us"
proof -
  define a where "a = \<bar>off\<bar>"
  define hh where "hh = a div 3600000000"
  define mm where "mm = (a mod 3600000000) div 60000000"
  define ss where "ss = (a mod 3600000000) mod 60000000"
  define c where "c = (if off < 0 then CHR ''-'' else CHR ''+'')"
  have a: "0 \<le> a" "a < 86400000000" using assms by (auto simp: a_def)
  note p = offset_parts[OF a, folded hh_def mm_def ss_def]
  define tail where "tail = (if ss \<noteq> 0 then '':'' @ pad 2 (nat (ss div 1000000))
                     @ (if ss mod 1000000 \<noteq> 0 then ''.'' @ pad 6 (nat (ss mod 1000000)) else [])
                   else [])"
  define body where "body = pad 2 (nat hh) @ '':'' @ pad 2 (nat mm) @ tail"
  have f: "format_offset (Some off) = c # body"
    unfolding format_offset_pad[OF assms] c_def body_def tail_def hh_def mm_def ss_def a_def ..
  have total: "a = (int (nat hh) * 3600 + int (nat mm) * 60 + int (nat (ss div 1000000))) * 1000000
                     + int (nat (ss mod 1000000))"
    using p by simp
  have pr: "parse_hh_mm_ss_ff body (length body)
                = Some (False, nat hh, nat mm, nat (ss div 1000000), nat (ss mod 1000000))"
  proof (cases "ss = 0")
    case True
    then show ?thesis using p hms_5[of "nat hh" "nat mm" "[]"] by (simp add: body_def tail_def)
  next
    case False
    show ?thesis
    proof (cases "ss mod 1000000 = 0")
      case True
      then show ?thesis
        using False p hms_8[of "nat hh" "nat mm" "nat (ss div 1000000)" "[]"]
        by (simp add: body_def tail_def)
    next
      case nz: False
      then show ?thesis
        using False p hms_15[of "nat hh" "nat mm" "nat (ss div 1000000)" "nat (ss mod 1000000)" "[]"]
        by (simp add: body_def tail_def)
    qed
  qed
  have "nat (ss mod 1000000) < 1000000" using p by simp
  then show ?thesis using f pr total unfolding a_def c_def by blast
qed

lemma ascii_pad: "\<forall>c \<in> set (pad w n). (of_char c :: nat) < 128"
  using digits_pad[of w n] by (auto simp: list_all_iff is_digit_iff)

lemma ascii_format_offset:
  assumes "valid_offset tz"
  shows "\<forall>c \<in> set (format_offset tz). (of_char c :: nat) < 128"
proof (cases tz)
  case None
  then show ?thesis by simp
next
  case (Some off)
  then have off: "- 86400000000 < off" "off < 86400000000"
    using assms by (simp_all add: valid_offset_def)
  show ?thesis
    unfolding Some format_offset_pad[OF off] using ascii_pad by (auto simp del: mod_mod_trivial)
qed

lemma not_tz_digit: "is_digit c \<Longrightarrow> \<not> is_tz c"
  by (auto simp: is_digit_iff is_tz_def)

lemma no_tz_pad: "\<forall>c \<in> set (pad w n). \<not> is_tz c"
  using digits_pad[of w n] by (auto simp: list_all_iff not_tz_digit)

lemma no_tz_format_time:
  assumes "h < 24" "m < 60" "s < 60" "us < 1000000"
  shows "\<forall>c \<in> set (format_time h m s us). \<not> is_tz c"
  unfolding format_time_pad[OF assms] using no_tz_pad by (auto simp: is_tz_def)

lemma tzinfo_pos:
  assumes "t \<noteq> []" and "\<forall>c \<in> set t. \<not> is_tz c" and "z = [] \<or> is_tz (hd z)"
  shows "(if is_tz (peek (t @ z)) then 0
          else Suc (length (takeWhile (\<lambda>c. \<not> is_tz c) (tl (t @ z))))) = length t"
proof -
  obtain c cs where t: "t = c # cs" using assms(1) by (cases t) auto
  have z: "takeWhile (\<lambda>c. \<not> is_tz c) z = []" using assms(3) by (cases z) auto
  have "takeWhile (\<lambda>c. \<not> is_tz c) (cs @ z) = cs"
    using assms(2) z by (simp add: t takeWhile_append2)
  then show ?thesis using assms(2) by (simp add: t)
qed

lemma parse_time_naive:
  assumes tb: "h < 24" "m < 60" "s < 60" "us < 1000000"
  shows "parse_isoformat_time (format_time h m s us) = Some (h, m, s, us, None)"
proof -
  let ?T = "format_time h m s us"
  have ne: "?T \<noteq> []" by (simp add: format_time_pad[OF tb] pad2)
  have "[] = [] \<or> is_tz (hd [])" by simp
  note tzinfo_pos[OF ne no_tz_format_time[OF tb] this]
  then have pos: "(if is_tz (peek ?T) then 0
              else Suc (length (takeWhile (\<lambda>c. \<not> is_tz c) (tl ?T)))) = length ?T"
    by (simp only: append_Nil2)
  have p: "parse_hh_mm_ss_ff ?T (length ?T) = Some (False, h, m, s, us)"
  proof (cases "us = 0")
    case True
    then show ?thesis using tb hms_8[of h m s "[]"] by (simp add: format_time_pad)
  next
    case False
    then show ?thesis using tb hms_15[of h m s us "[]"] by (simp add: format_time_pad)
  qed
  show ?thesis unfolding parse_isoformat_time_def pos Let_def p by simp
qed

lemma parse_time_aware:
  assumes tb: "h < 24" "m < 60" "s < 60" "us < 1000000"
    and off: "- 86400000000 < off" "off < 86400000000"
  shows "\<exists>th tm ts tus. parse_isoformat_time (format_time h m s us @ format_offset (Some off))
            = Some (h, m, s, us,
                    Some ((if off < 0 then - 1 else 1) * (int th * 3600 + int tm * 60 + int ts),
                          (if off < 0 then - 1 else 1) * int tus))
          \<and> tus < 1000000
          \<and> \<bar>off\<bar> = (int th * 3600 + int tm * 60 + int ts) * 1000000 + int tus"
proof -
  let ?T = "format_time h m s us"
  obtain c body th tm ts tus where f: "format_offset (Some off) = c # body"
    and c: "c = (if off < 0 then CHR ''-'' else CHR ''+'')"
    and pb: "parse_hh_mm_ss_ff body (length body) = Some (False, th, tm, ts, tus)"
    and tus: "tus < 1000000"
    and total: "\<bar>off\<bar> = (int th * 3600 + int tm * 60 + int ts) * 1000000 + int tus"
    using parse_format_offset[OF off] by blast
  have ne: "?T \<noteq> []" by (simp add: format_time_pad[OF tb] pad2)
  have tzc: "is_tz c" by (simp add: c is_tz_def)
  have pos: "(if is_tz (peek (?T @ c # body)) then 0
              else Suc (length (takeWhile (\<lambda>c. \<not> is_tz c) (tl (?T @ c # body))))) = length ?T"
    using tzinfo_pos[OF ne no_tz_format_time[OF tb], of "c # body"] tzc by simp
  have p: "\<exists>rv. parse_hh_mm_ss_ff (?T @ c # body) (length ?T) = Some (rv, h, m, s, us)"
  proof (cases "us = 0")
    case True
    then show ?thesis using tb hms_8[of h m s "c # body"] by (simp add: format_time_pad)
  next
    case False
    then show ?thesis using tb hms_15[of h m s us "c # body"] by (simp add: format_time_pad)
  qed
  then obtain rv where p: "parse_hh_mm_ss_ff (?T @ c # body) (length ?T) = Some (rv, h, m, s, us)"
    by blast
  have cz: "c \<noteq> CHR ''Z''" by (simp add: c)
  have sg: "(if c = CHR ''-'' then - 1 else (1::int)) = (if off < 0 then - 1 else 1)"
    by (simp add: c)
  have "parse_isoformat_time (?T @ c # body)
          = Some (h, m, s, us,
                  Some ((if off < 0 then - 1 else 1) * (int th * 3600 + int tm * 60 + int ts),
                        (if off < 0 then - 1 else 1) * int tus))"
    unfolding parse_isoformat_time_def pos Let_def p using cz pb sg by simp
  then show ?thesis using tus total unfolding f by blast
qed

lemma tzinfo_read:
  assumes "\<bar>off\<bar> = secs * 1000000 + int tus" "tus < 1000000" "0 \<le> secs"
  shows "tzinfo_from_isoformat_results
           (Some ((if off < 0 then - 1 else 1) * secs, (if off < 0 then - 1 else 1) * int tus))
         = Some (if \<bar>off\<bar> < 1000000 then 0 else off)"
proof (cases "secs = 0")
  case True
  then have "\<bar>off\<bar> < 1000000" using assms by simp
  then show ?thesis using True by (simp add: tzinfo_from_isoformat_results_def)
next
  case False
  then have "1 \<le> secs" using assms(3) by simp
  then have "1000000 \<le> \<bar>off\<bar>" using assms(1) by simp
  then show ?thesis
    using False assms(1) by (auto simp: tzinfo_from_isoformat_results_def algebra_simps)
qed

lemma parse_time_offset:
  assumes tb: "h < 24" "m < 60" "s < 60" "us < 1000000"
    and v: "valid_offset tz"
  shows "\<exists>z. parse_isoformat_time (format_time h m s us @ format_offset tz) = Some (h, m, s, us, z)
           \<and> tzinfo_from_isoformat_results z
               = map_option (\<lambda>off. if \<bar>off\<bar> < 1000000 then 0 else off) tz"
proof (cases tz)
  case None
  then show ?thesis using parse_time_naive[OF tb] by (simp add: tzinfo_from_isoformat_results_def)
next
  case (Some off)
  have off: "- 86400000000 < off" "off < 86400000000" using v Some by (simp_all add: valid_offset_def)
  obtain th tm ts tus where p: "parse_isoformat_time (format_time h m s us @ format_offset (Some off))
            = Some (h, m, s, us,
                    Some ((if off < 0 then - 1 else 1) * (int th * 3600 + int tm * 60 + int ts),
                          (if off < 0 then - 1 else 1) * int tus))"
    and tus: "tus < 1000000"
    and total: "\<bar>off\<bar> = (int th * 3600 + int tm * 60 + int ts) * 1000000 + int tus"
    using parse_time_aware[OF tb off] by blast
  have "tzinfo_from_isoformat_results
          (Some ((if off < 0 then - 1 else 1) * (int th * 3600 + int tm * 60 + int ts),
                 (if off < 0 then - 1 else 1) * int tus))
        = Some (if \<bar>off\<bar> < 1000000 then 0 else off)"
    using total tus by (rule tzinfo_read) simp
  then show ?thesis using p Some by simp
qed

lemma utf8_ascii: "\<forall>c \<in> set s. (of_char c :: nat) < 128 \<Longrightarrow> utf8 s = s"
  by (induction s) (simp_all add: utf8_def)

lemma ascii_isoformat:
  assumes v: "valid_datetime d"
  shows "\<forall>c \<in> set (datetime_isoformat d). (of_char c :: nat) < 128"
proof -
  have ymd: "valid_ymd (year d) (month d) (day d)" using v by (simp add: valid_datetime_def)
  have tb: "hour d < 24" "minute d < 60" "second d < 60" "microsecond d < 1000000"
    using v by (simp_all add: valid_datetime_def)
  have vz: "valid_offset (tzinfo d)" using v by (simp add: valid_datetime_def)
  show ?thesis
    unfolding datetime_isoformat_def date_isoformat_pad[OF ymd] format_time_pad[OF tb]
    using ascii_pad ascii_format_offset[OF vz] by auto
qed

lemma parse_date_pad:
  assumes "y < 10000" "m < 100" "d < 100"
  shows "parse_isoformat_date (pad 4 y @ ''-'' @ pad 2 m @ ''-'' @ pad 2 d @ rest) len = Some (y, m, d)"
proof -
  have 1: "parse_digits (pad 4 y @ ''-'' @ pad 2 m @ ''-'' @ pad 2 d @ rest) 4
             = Some (y, ''-'' @ pad 2 m @ ''-'' @ pad 2 d @ rest)"
    using assms by (intro parse_digits_pad) simp
  have 2: "parse_digits (pad 2 m @ ''-'' @ pad 2 d @ rest) 2 = Some (m, ''-'' @ pad 2 d @ rest)"
    using assms by (intro parse_digits_pad) simp
  have 3: "parse_digits (pad 2 d @ rest) 2 = Some (d, rest)"
    using assms by (intro parse_digits_pad) simp
  have w: "peek (pad 2 m @ ''-'' @ pad 2 d @ rest) \<noteq> CHR ''W''"
    by (simp add: pad2 digit_char_not)
  show ?thesis
    unfolding parse_isoformat_date_def 1 using w 2 3 by (simp add: Let_def)
qed

lemma find_separator_pad:
  "find_isoformat_datetime_separator (pad 4 y @ ''-'' @ pad 2 m @ ''-'' @ pad 2 d @ CHR ''T'' # rest)
     = Some 10"
  by (simp add: find_isoformat_datetime_separator_def nth_append pad2 digit_char_not)

text \<open>
  What \<open>fromisoformat\<close> reads from the text that \<open>isoformat\<close> printed: the same date
  and time, with the same offset unless that is below one second, which is read as UTC.
\<close>

lemma fromisoformat_after_isoformat:
  assumes v: "valid_datetime d"
  shows "fromisoformat (datetime_isoformat d)
           = Some (d\<lparr>tzinfo := map_option (\<lambda>off. if \<bar>off\<bar> < 1000000 then 0 else off) (tzinfo d)\<rparr>)"
proof -
  let ?T = "format_time (hour d) (minute d) (second d) (microsecond d)"
  let ?Z = "format_offset (tzinfo d)"
  let ?tz = "map_option (\<lambda>off. if \<bar>off\<bar> < 1000000 then 0 else off) (tzinfo d)"
  have ymd: "valid_ymd (year d) (month d) (day d)" using v by (simp add: valid_datetime_def)
  have tb: "hour d < 24" "minute d < 60" "second d < 60" "microsecond d < 1000000"
    using v by (simp_all add: valid_datetime_def)
  have vz: "valid_offset (tzinfo d)" using v by (simp add: valid_datetime_def)
  have d31: "day d \<le> 31" using ymd by (auto simp: valid_ymd_def days_in_month_def split: if_splits)
  have s: "datetime_isoformat d
             = pad 4 (year d) @ ''-'' @ pad 2 (month d) @ ''-'' @ pad 2 (day d) @ CHR ''T'' # (?T @ ?Z)"
    by (simp add: datetime_isoformat_def date_isoformat_pad[OF ymd])
  have u: "utf8 (datetime_isoformat d) = datetime_isoformat d"
    using ascii_isoformat[OF v] by (rule utf8_ascii)
  have len: "length (datetime_isoformat d) = 11 + length (?T @ ?Z)" unfolding s by simp
  have sep: "find_isoformat_datetime_separator (datetime_isoformat d) = Some 10"
    unfolding s by (rule find_separator_pad)
  have pd: "parse_isoformat_date (datetime_isoformat d) 10 = Some (year d, month d, day d)"
    unfolding s using ymd d31 by (intro parse_date_pad) (simp_all add: valid_ymd_def)
  have at: "datetime_isoformat d ! 10 = CHR ''T''" unfolding s by (simp add: nth_append)
  have dr: "drop 11 (datetime_isoformat d) = ?T @ ?Z" unfolding s by simp
  obtain z where pt: "parse_isoformat_time (?T @ ?Z)
                        = Some (hour d, minute d, second d, microsecond d, z)"
    and tz: "tzinfo_from_isoformat_results z = ?tz"
    using parse_time_offset[OF tb vz] by blast
  have r: "\<lparr>year = year d, month = month d, day = day d, hour = hour d, minute = minute d,
            second = second d, microsecond = microsecond d, tzinfo = ?tz\<rparr> = d\<lparr>tzinfo := ?tz\<rparr>"
    by simp
  have vo: "valid_offset ?tz" using vz by (cases "tzinfo d") (simp_all add: valid_offset_def)
  have vr: "valid_datetime (d\<lparr>tzinfo := ?tz\<rparr>)" using v vo by (simp add: valid_datetime_def)
  show ?thesis
    unfolding fromisoformat_def u Let_def sep option.case pd prod.case at
    using len vr by (simp add: dr pt tz r)
qed

lemma fromisoformat_isoformat:
  assumes v: "valid_datetime d" and k: "offset_kept (tzinfo d)"
  shows "fromisoformat (datetime_isoformat d) = Some d"
proof -
  have "map_option (\<lambda>off. if \<bar>off\<bar> < 1000000 then 0 else off) (tzinfo d) = tzinfo d"
    using k by (cases "tzinfo d") (auto simp: offset_kept_def)
  then show ?thesis using fromisoformat_after_isoformat[OF v] by simp
qed

section \<open>\<open>json.load\<close> after \<open>json.dump\<close>\<close>

lemma update_middle:
  "k \<notin> fst ` set pre \<Longrightarrow> AList.update k v (pre @ (k, v') # rest) = pre @ (k, v) # rest"
  by (induction pre) auto

lemma iso_convert_eq:
  "iso_convert v = (case py_fromisoformat v of Inr d \<Rightarrow> PDatetime d | Inl e \<Rightarrow> v)"
  by (cases v) (auto simp: iso_convert_def split: option.splits)

lemma deserialize_items_map:
  "distinct (map fst (pre @ items)) \<Longrightarrow>
   deserialize_items items (pre @ items) = pre @ map (\<lambda>(k, v). (k, iso_convert v)) items"
proof (induction items arbitrary: pre)
  case Nil
  then show ?case by simp
next
  case (Cons kv items)
  obtain k v where kv: "kv = (k, v)" by (cases kv)
  have k: "k \<notin> fst ` set pre" using Cons.prems kv by auto
  have step: "(case py_fromisoformat v of
                 Inr d \<Rightarrow> AList.update k (PDatetime d) (pre @ (k, v) # items)
               | Inl e \<Rightarrow> pre @ (k, v) # items) = (pre @ [(k, iso_convert v)]) @ items"
    by (auto simp: iso_convert_eq update_middle[OF k] split: sum.splits)
  have "distinct (map fst ((pre @ [(k, iso_convert v)]) @ items))" using Cons.prems kv by auto
  then have "deserialize_items items ((pre @ [(k, iso_convert v)]) @ items)
               = (pre @ [(k, iso_convert v)]) @ map (\<lambda>(k, v). (k, iso_convert v)) items"
    by (rule Cons.IH)
  then show ?case unfolding kv deserialize_items.simps step by simp
qed

lemma datetime_json_deserialize_map:
  "distinct (map fst obj) \<Longrightarrow>
   datetime_json_deserialize obj = PDict (map (\<lambda>(k, v). (k, iso_convert v)) obj)"
  using deserialize_items_map[of "[]" obj] by (simp add: datetime_json_deserialize_def)

lemma foldl_update_distinct:
  "distinct (map fst (acc @ pairs)) \<Longrightarrow>
   foldl (\<lambda>d kv. AList.update (fst kv) (snd kv) d) acc pairs = acc @ pairs"
proof (induction pairs arbitrary: acc)
  case Nil
  then show ?case by simp
next
  case (Cons kv pairs)
  have "fst kv \<notin> fst ` set acc" using Cons.prems by auto
  then have u: "AList.update (fst kv) (snd kv) acc = acc @ [kv]"
    by (simp add: update_fresh)
  have "distinct (map fst ((acc @ [kv]) @ pairs))" using Cons.prems by simp
  then have "foldl (\<lambda>d kv. AList.update (fst kv) (snd kv) d) (acc @ [kv]) pairs = (acc @ [kv]) @ pairs"
    by (rule Cons.IH)
  then show ?case by (simp add: u)
qed

lemma py_dict_distinct: "distinct (map fst pairs) \<Longrightarrow> py_dict pairs = pairs"
  using foldl_update_distinct[of "[]" pairs] by (simp add: py_dict_def)

lemma load_dump_dict:
  assumes "distinct (map fst rec)"
  shows "json_load (json_dump (PDict rec))
           = PDict (map (\<lambda>(k, v). (k, iso_convert (json_load (json_dump v)))) rec)"
proof -
  let ?pairs = "map (\<lambda>(k, v). (k, json_load (json_dump v))) rec"
  have m: "map (\<lambda>(k, v). (k, json_load v)) (map (\<lambda>(k, v). (k, json_dump v)) rec) = ?pairs"
    by (induction rec) auto
  have k: "map fst ?pairs = map fst rec" by (induction rec) auto
  have d: "distinct (map fst ?pairs)" unfolding k by (rule assms)
  have "json_load (json_dump (PDict rec))
          = datetime_json_deserialize
              (py_dict (map (\<lambda>(k, v). (k, json_load v)) (map (\<lambda>(k, v). (k, json_dump v)) rec)))"
    by (simp del: map_map)
  then have "json_load (json_dump (PDict rec)) = datetime_json_deserialize (py_dict ?pairs)"
    unfolding m .
  also have "\<dots> = PDict (map (\<lambda>(k, v). (k, iso_convert v)) ?pairs)"
    using d by (simp add: py_dict_distinct datetime_json_deserialize_map)
  also have "map (\<lambda>(k, v). (k, iso_convert v)) ?pairs
              = map (\<lambda>(k, v). (k, iso_convert (json_load (json_dump v)))) rec"
    by (induction rec) auto
  finally show ?thesis .
qed

lemma load_dump_datetime: "json_load (json_dump (PDatetime d)) = PStr (datetime_isoformat d)"
  by simp

lemma load_dump_list:
  "json_load (json_dump (PList xs)) = PList (map (\<lambda>x. json_load (json_dump x)) xs)"
  by (simp add: comp_def)

lemma load_dump_records:
  assumes "\<forall>rec \<in> set recs. distinct (map fst rec)"
  shows "json_load (json_dump (row_records recs))
           = row_records (map (map (\<lambda>(k, v). (k, iso_convert (json_load (json_dump v))))) recs)"
proof -
  have "map (\<lambda>x. json_load (json_dump x)) (map PDict recs)
          = map (\<lambda>rec. PDict (map (\<lambda>(k, v). (k, iso_convert (json_load (json_dump v)))) rec)) recs"
    unfolding map_map comp_def using assms by (intro map_cong refl load_dump_dict) blast
  then show ?thesis
    unfolding row_records_def load_dump_list by (simp add: comp_def)
qed

lemma read_after_fresh_write:
  assumes P: "fs (dir_name self) = Present d"
    and nr: "next_revision self fs = Inr name"
    and fresh: "name \<notin> set (map fst d)"
    and suf: "suffix (file_name self) name"
    and ne: "name \<noteq> []"
    and top: "\<forall>b \<in> set (all_backups (file_name self) (map fst d)). b \<le> name"
  shows "\<exists>fs'. BackupFile_write self data fs = (Inr (), fs')
           \<and> read self fs' = Inr (json_load (json_dump data))"
proof -
  let ?e = "File (Document (json_dump data))"
  let ?d = "d @ [(name, ?e)]"
  let ?fs = "fs(dir_name self := Present ?d)"
  have w: "BackupFile_write self data fs = (Inr (), ?fs)" using P nr fresh by (rule write_fresh)
  have P': "?fs (dir_name self) = Present ?d" by simp
  have ab: "all_backups (file_name self) (map fst ?d)
              = all_backups (file_name self) (map fst d) @ [name]"
    using suf by (simp add: all_backups_def)
  have mx: "Max (set (all_backups (file_name self) (map fst d) @ [name])) = name"
    using top by (intro Max_eqI) auto
  have "all_backups (file_name self) (map fst ?d) \<noteq> []" unfolding ab by simp
  then have "latest_revision self ?fs
               = Inr (Some (Max (set (all_backups (file_name self) (map fst ?d)))))"
    using latest_revision_Max[of ?fs self ?d] P' by blast
  then have lr: "latest_revision self ?fs = Inr (Some name)" unfolding ab mx .
  have "map_of d name = None" using fresh by (simp add: map_of_eq_None_iff)
  then have mo: "map_of ?d name = Some ?e" by (simp add: map_add_def)
  have "read self ?fs = Inr (json_load (json_dump data))"
    using read_of_latest[of ?fs self ?d name] P' lr ne mo by simp
  then show ?thesis using w by blast
qed

lemma next_name_greater:
  assumes dig: "list_all is_digit ds"
    and lt: "dec_value ds + 1 < 10 ^ length ds"
  shows "ds @ rest < pad (length ds) (dec_value ds + 1) @ rest"
proof -
  have "pad (length ds) (dec_value ds) < pad (length ds) (dec_value ds + 1)"
    using lt by (intro pad_less) simp_all
  then have "ds < pad (length ds) (dec_value ds + 1)"
    using pad_dec_value[OF dig] by simp
  then show ?thesis by (rule append_less_same_length) simp
qed

lemma write_then_read:
  assumes P: "fs (dir_name self) = Present d"
    and room: "room_for_next self d"
  shows "\<exists>fs'. BackupFile_write self data fs = (Inr (), fs')
           \<and> read self fs' = Inr (json_load (json_dump data))"
proof (cases "all_backups (file_name self) (map fst d) = []")
  case True
  have nr: "next_revision self fs = Inr (''0001_'' @ file_name self)"
    using P True by (rule next_revision_first)
  have fresh: "''0001_'' @ file_name self \<notin> set (map fst d)"
    using True by (rule first_name_fresh)
  show ?thesis using P nr fresh
    by (rule read_after_fresh_write) (simp_all add: True suffix_def)
next
  case False
  define r where "r = Max (set (all_backups (file_name self) (map fst d)))"
  define w where "w = revision_num_len self"
  define ds where "ds = take w r"
  define rest where "rest = drop w r"
  have h: "0 < w" "w \<le> length r" "list_all is_digit ds"
    "dec_value ds + 1 < 10 ^ w" "suffix (file_name self) rest"
    using room False by (simp_all add: room_for_next_def Let_def r_def w_def ds_def rest_def)
  have lw: "length ds = w" using h(2) by (simp add: ds_def)
  have mx: "Max (set (all_backups (file_name self) (map fst d))) = ds @ rest"
    by (simp add: r_def ds_def rest_def)
  have pos: "ds \<noteq> []" using lw h(1) by auto
  have lt: "dec_value ds + 1 < 10 ^ length ds" using h(4) lw by simp
  let ?name = "pad (length ds) (dec_value ds + 1) @ rest"
  have nr: "next_revision self fs = Inr ?name"
    using P False mx _ h(3) pos lt by (rule next_revision_digits) (simp add: lw w_def)
  have fresh: "?name \<notin> set (map fst d)"
    using False mx h(3) lt h(5) by (rule next_name_fresh)
  have gt: "ds @ rest < ?name" using h(3) lt by (rule next_name_greater)
  have top: "\<forall>b \<in> set (all_backups (file_name self) (map fst d)). b \<le> ?name"
  proof
    fix b assume "b \<in> set (all_backups (file_name self) (map fst d))"
    then have "b \<le> ds @ rest" using mx by (metis Max_ge List.finite_set)
    then show "b \<le> ?name" using gt by simp
  qed
  have ne: "?name \<noteq> []" using pos lw by (metis append_is_Nil_conv length_pad length_0_conv)
  show ?thesis using P nr fresh _ ne top
    by (rule read_after_fresh_write) (simp add: h(5) suffix_appendI)
qed

lemma map_of_converted:
  assumes "distinct (map fst rec)" and "(k, v) \<in> set rec"
  shows "map_of (map (\<lambda>(k, v). (k, f v)) rec) k = Some (f v)"
proof -
  have "map_of rec k = Some v" using assms by (rule map_of_is_SomeI)
  then show ?thesis by (simp add: map_of_map)
qed

lemma keys_converted: "map fst (map (\<lambda>(k, v). (k, f v)) rec) = map fst rec"
  by (induction rec) auto

text \<open>
  C8. After a write of row-records, \<open>read\<close> returns as many records, with the same
  field names, and every field written as a string holds the datetime the string parses
  to as an ISO 8601 datetime, although it was written as a string, or the string itself
  when it does not parse.
\<close>

theorem read_converts_iso_strings:
  assumes P: "fs (dir_name self) = Present d"
    and room: "room_for_next self d"
    and keys: "\<forall>rec \<in> set recs. distinct (map fst rec)"
  shows "\<exists>fs' recs'. BackupFile_write self (row_records recs) fs = (Inr (), fs')
           \<and> read self fs' = Inr (row_records recs') \<and> length recs' = length recs
           \<and> (\<forall>i < length recs. map fst (recs' ! i) = map fst (recs ! i)
                \<and> (\<forall>k s. (k, PStr s) \<in> set (recs ! i) \<longrightarrow>
                      map_of (recs' ! i) k =
                        Some (case fromisoformat s of Some dt \<Rightarrow> PDatetime dt | None \<Rightarrow> PStr s)))"
proof -
  let ?g = "\<lambda>(k, v). (k, iso_convert (json_load (json_dump v)))"
  let ?recs' = "map (map ?g) recs"
  obtain fs' where w: "BackupFile_write self (row_records recs) fs = (Inr (), fs')"
    and r: "read self fs' = Inr (json_load (json_dump (row_records recs)))"
    using write_then_read[of fs self d "row_records recs"] P room by blast
  have r': "read self fs' = Inr (row_records ?recs')"
    using r unfolding load_dump_records[OF keys] .
  have fields: "\<forall>i < length recs. map fst (?recs' ! i) = map fst (recs ! i)
                \<and> (\<forall>k s. (k, PStr s) \<in> set (recs ! i) \<longrightarrow>
                      map_of (?recs' ! i) k =
                        Some (case fromisoformat s of Some dt \<Rightarrow> PDatetime dt | None \<Rightarrow> PStr s))"
  proof (intro allI impI conjI)
    fix i assume i: "i < length recs"
    then have "?recs' ! i = map ?g (recs ! i)" by simp
    then show "map fst (?recs' ! i) = map fst (recs ! i)"
      using keys_converted[of "\<lambda>v. iso_convert (json_load (json_dump v))" "recs ! i"] by simp
  next
    fix i k s assume i: "i < length recs" and m: "(k, PStr s) \<in> set (recs ! i)"
    have dk: "distinct (map fst (recs ! i))" using keys i by simp
    have "map_of (map ?g (recs ! i)) k = Some (iso_convert (json_load (json_dump (PStr s))))"
      using dk m by (rule map_of_converted)
    then show "map_of (?recs' ! i) k =
                 Some (case fromisoformat s of Some dt \<Rightarrow> PDatetime dt | None \<Rightarrow> PStr s)"
      using i by (simp add: iso_convert_def)
  qed
  have "length ?recs' = length recs" by simp
  then show ?thesis using w r' fields by blast
qed

lemma written_float_number: "\<not> is_nan x \<Longrightarrow> written_float x = x"
  by (simp add: written_float_def)

lemma preserved_load_dump:
  "(preserved False v \<longrightarrow> json_load (json_dump v) = v)
   \<and> (preserved True v \<longrightarrow> iso_convert (json_load (json_dump v)) = v)"
proof (induction v)
  case (PList xs)
  have "preserved False (PList xs) \<Longrightarrow> map (\<lambda>x. json_load (json_dump x)) xs = xs"
    using PList by (intro map_idI) simp
  then show ?case by (simp add: iso_convert_def comp_def)
next
  case (PDict kvs)
  have "distinct (map fst kvs) \<Longrightarrow> \<forall>kv \<in> set kvs. preserved True (snd kv) \<Longrightarrow>
          json_load (json_dump (PDict kvs)) = PDict kvs"
  proof -
    assume d: "distinct (map fst kvs)" and p: "\<forall>kv \<in> set kvs. preserved True (snd kv)"
    have "map (\<lambda>(k, v). (k, iso_convert (json_load (json_dump v)))) kvs = kvs"
    proof (intro map_idI)
      fix kv assume m: "kv \<in> set kvs"
      have "snd kv \<in> Basic_BNFs.snds kv" by (cases kv) simp
      then have "iso_convert (json_load (json_dump (snd kv))) = snd kv"
        using PDict m p by blast
      then show "(case kv of (k, v) \<Rightarrow> (k, iso_convert (json_load (json_dump v)))) = kv"
        by (simp add: case_prod_beta)
    qed
    then show ?thesis unfolding load_dump_dict[OF d] by simp
  qed
  then show ?case by (simp add: iso_convert_def del: json_dump.simps json_load.simps)
qed (simp_all add: iso_convert_def written_float_number fromisoformat_isoformat)

lemma preserved_restored: "preserved True v \<Longrightarrow> iso_convert (json_load (json_dump v)) = v"
  using preserved_load_dump by blast

text \<open>
  C1, as amended. For row-records with distinct field names whose values are
  \<open>preserved\<close> (\<open>None\<close>, booleans, integers, floats other than NaN, strings that
  \<open>fromisoformat\<close> rejects, datetimes whose UTC offset is none, zero or at least one
  second, and lists and dicts of such values, where a string inside a list is any string
  and a datetime stands only as the value of a field), \<open>read\<close> after \<open>write\<close>
  returns the records as they were written, datetimes with their microseconds and offset.
\<close>

theorem round_trip:
  assumes P: "fs (dir_name self) = Present d"
    and room: "room_for_next self d"
    and keys: "\<forall>rec \<in> set recs. distinct (map fst rec)"
    and pres: "\<forall>rec \<in> set recs. \<forall>kv \<in> set rec. preserved True (snd kv)"
  shows "\<exists>fs'. BackupFile_write self (row_records recs) fs = (Inr (), fs')
           \<and> read self fs' = Inr (row_records recs)"
proof -
  have e: "map (map (\<lambda>(k, v). (k, iso_convert (json_load (json_dump v))))) recs = recs"
  proof (intro map_idI)
    fix rec kv assume "rec \<in> set recs" "kv \<in> set rec"
    then have "preserved True (snd kv)" using pres by blast
    then show "(case kv of (k, v) \<Rightarrow> (k, iso_convert (json_load (json_dump v)))) = kv"
      by (simp add: case_prod_beta preserved_restored)
  qed
  have "json_load (json_dump (row_records recs)) = row_records recs"
    unfolding load_dump_records[OF keys] e ..
  then show ?thesis using write_then_read[of fs self d "row_records recs"] P room by simp
qed

lemma json_dump_nullify: "json_dump (nullify v) = json_dump v"
  by (induction v rule: nullify.induct) auto

text \<open>
  C10. The serialisation hook returns \<open>None\<close> for a value that is neither JSON-native
  nor a date or datetime, such a value is encoded as \<open>null\<close>, and the write succeeds:
  the new file holds the data with every such value replaced by \<open>null\<close>.
\<close>

theorem unsupported_values_become_null:
  assumes P: "fs (dir_name self) = Present d"
    and room: "room_for_next self d"
  shows "datetime_json_serialize (PObject t) = PNone \<and> json_dump (PObject t) = JNull
       \<and> (\<exists>name. name \<notin> set (map fst d)
            \<and> BackupFile_write self data fs =
                (Inr (), fs(dir_name self :=
                   Present (d @ [(name, File (Document (json_dump (nullify data))))]))))"
  using write_in_room[of fs self d data] P room by (simp add: json_dump_nullify)

lemmas iso_eval = fromisoformat_def utf8_def find_isoformat_datetime_separator_def
  parse_isoformat_date_def parse_digits_def is_digit_iff dec_value_def digit_val_def
  parse_isoformat_time_def parse_hh_mm_ss_ff_def hh_mm_ss.simps is_tz_def
  tzinfo_from_isoformat_results_def valid_datetime_def valid_ymd_def
  days_in_month_def is_leap_def valid_offset_def Let_def

lemma iso_midnight:
  "fromisoformat ''2024-01-01T00:00:00''
     = Some \<lparr>year = 2024, month = 1, day = 1, hour = 0, minute = 0, second = 0,
             microsecond = 0, tzinfo = None\<rparr>"
  by (simp add: iso_eval)

lemma iso_date_only:
  "fromisoformat ''2024-01-01''
     = Some \<lparr>year = 2024, month = 1, day = 1, hour = 0, minute = 0, second = 0,
             microsecond = 0, tzinfo = None\<rparr>"
  by (simp add: iso_eval)

lemma iso_not: "fromisoformat ''0001_initial'' = None"
  by (simp add: iso_eval)

lemma empty_room: "room_for_next self []"
  by (simp add: room_for_next_def all_backups_def)

theorem read_converts_iso_strings_witness:
  "room_for_next x_json []
   \<and> distinct (map fst [(''id'', PInt 1), (''applied'', PStr ''2024-01-01T00:00:00''),
                          (''name'', PStr ''0001_initial'')])
   \<and> (\<exists>fs' recs'. BackupFile_write x_json
               (row_records [[(''id'', PInt 1), (''applied'', PStr ''2024-01-01T00:00:00''),
                              (''name'', PStr ''0001_initial'')]])
               (\<lambda>_. Present []) = (Inr (), fs')
          \<and> read x_json fs' = Inr (row_records recs')
          \<and> map_of (recs' ! 0) ''applied'' = Some (PDatetime midnight)
          \<and> map_of (recs' ! 0) ''name'' = Some (PStr ''0001_initial''))"
proof -
  let ?rec = "[(''id'', PInt 1), (''applied'', PStr ''2024-01-01T00:00:00''),
               (''name'', PStr ''0001_initial'')]"
  have P: "(\<lambda>_. Present []) (dir_name x_json) = Present []" by simp
  have keys: "\<forall>rec \<in> set [?rec]. distinct (map fst rec)" by simp
  obtain fs' recs' where w: "BackupFile_write x_json (row_records [?rec]) (\<lambda>_. Present []) = (Inr (), fs')"
    and r: "read x_json fs' = Inr (row_records recs')"
    and f: "\<forall>i < length [?rec]. map fst (recs' ! i) = map fst ([?rec] ! i)
                \<and> (\<forall>k s. (k, PStr s) \<in> set ([?rec] ! i) \<longrightarrow>
                      map_of (recs' ! i) k =
                        Some (case fromisoformat s of Some dt \<Rightarrow> PDatetime dt | None \<Rightarrow> PStr s))"
    using read_converts_iso_strings[of "\<lambda>_. Present []" x_json "[]" "[?rec]"] P empty_room keys
    by blast
  have f0: "(k, PStr s) \<in> set ([?rec] ! 0) \<Longrightarrow>
              map_of (recs' ! 0) k =
                Some (case fromisoformat s of Some dt \<Rightarrow> PDatetime dt | None \<Rightarrow> PStr s)" for k s
    using f by blast
  have a: "map_of (recs' ! 0) ''applied'' = Some (PDatetime midnight)"
    using f0[of "''applied''" "''2024-01-01T00:00:00''"]
    by (simp add: iso_midnight midnight_def)
  have n: "map_of (recs' ! 0) ''name'' = Some (PStr ''0001_initial'')"
    using f0[of "''name''" "''0001_initial''"] by (simp add: iso_not)
  show ?thesis using empty_room w r a n by auto
qed

lemma iso_basic_date:
  "fromisoformat ''20240101''
     = Some \<lparr>year = 2024, month = 1, day = 1, hour = 0, minute = 0, second = 0,
             microsecond = 0, tzinfo = None\<rparr>"
  by (simp add: iso_eval)

lemma iso_zulu:
  "fromisoformat ''2024-01-01T00:00:00.1Z''
     = Some \<lparr>year = 2024, month = 1, day = 1, hour = 0, minute = 0, second = 0,
             microsecond = 100000, tzinfo = Some 0\<rparr>"
  by (simp add: iso_eval)

lemma valid_midnight:
  "us < 1000000 \<Longrightarrow> valid_datetime (midnight\<lparr>microsecond := us, tzinfo := tz\<rparr>) = valid_offset tz"
  by (simp add: midnight_def valid_datetime_def valid_ymd_def days_in_month_def)

lemma number_not_nan: "\<not> is_nan 0x3FB999999999999A"
  by (simp add: is_nan_def)

theorem round_trip_witness:
  "room_for_next x_json []
   \<and> distinct (map fst [(''id'', PInt 1),
                          (''applied'', PDatetime (midnight\<lparr>microsecond := 123456,
                                                          tzinfo := Some 19800000000\<rparr>)),
                          (''name'', PStr ''0001_initial''),
                          (''weight'', PFloat 0x3FB999999999999A),
                          (''tags'', PList [PStr ''2024-01-01'', PNone])])
   \<and> preserved True (PDatetime (midnight\<lparr>microsecond := 123456, tzinfo := Some 19800000000\<rparr>))
   \<and> preserved True (PStr ''0001_initial'')
   \<and> preserved True (PFloat 0x3FB999999999999A)
   \<and> preserved True (PList [PStr ''2024-01-01'', PNone])
   \<and> (\<exists>fs'. BackupFile_write x_json
               (row_records [[(''id'', PInt 1),
                              (''applied'', PDatetime (midnight\<lparr>microsecond := 123456,
                                                              tzinfo := Some 19800000000\<rparr>)),
                              (''name'', PStr ''0001_initial''),
                              (''weight'', PFloat 0x3FB999999999999A),
                              (''tags'', PList [PStr ''2024-01-01'', PNone])]])
               (\<lambda>_. Present []) = (Inr (), fs')
          \<and> read x_json fs'
              = Inr (row_records [[(''id'', PInt 1),
                                   (''applied'', PDatetime (midnight\<lparr>microsecond := 123456,
                                                                   tzinfo := Some 19800000000\<rparr>)),
                                   (''name'', PStr ''0001_initial''),
                                   (''weight'', PFloat 0x3FB999999999999A),
                                   (''tags'', PList [PStr ''2024-01-01'', PNone])]]))"
proof -
  let ?dt = "PDatetime (midnight\<lparr>microsecond := 123456, tzinfo := Some 19800000000\<rparr>)"
  let ?rec = "[(''id'', PInt 1), (''applied'', ?dt), (''name'', PStr ''0001_initial''),
               (''weight'', PFloat 0x3FB999999999999A),
               (''tags'', PList [PStr ''2024-01-01'', PNone])]"
  have P: "(\<lambda>_. Present []) (dir_name x_json) = Present []" by simp
  have keys: "\<forall>rec \<in> set [?rec]. distinct (map fst rec)" by simp
  have p1: "preserved True ?dt"
    by (simp add: valid_midnight valid_offset_def offset_kept_def)
  have p2: "preserved True (PStr ''0001_initial'')" by (simp add: iso_not)
  have p3: "preserved True (PFloat 0x3FB999999999999A)" by (simp add: number_not_nan)
  have p4: "preserved True (PList [PStr ''2024-01-01'', PNone])" by simp
  have pres: "\<forall>rec \<in> set [?rec]. \<forall>kv \<in> set rec. preserved True (snd kv)"
    using p1 p2 p3 p4 by simp
  have "\<exists>fs'. BackupFile_write x_json (row_records [?rec]) (\<lambda>_. Present []) = (Inr (), fs')
           \<and> read x_json fs' = Inr (row_records [?rec])"
    using P empty_room keys pres by (rule round_trip)
  then show ?thesis using empty_room p1 p2 p3 p4 by simp
qed

text \<open>
  A string field that reads as a date comes back as a datetime: the records returned are
  not the records written.
\<close>

theorem round_trip_fails_on_iso_string:
  "\<exists>fs'. BackupFile_write x_json (row_records [[(''id'', PInt 7), (''name'', PStr ''2024-01-01'')]])
            (\<lambda>_. Present []) = (Inr (), fs')
         \<and> read x_json fs' = Inr (row_records [[(''id'', PInt 7), (''name'', PDatetime midnight)]])
         \<and> read x_json fs' \<noteq> Inr (row_records [[(''id'', PInt 7), (''name'', PStr ''2024-01-01'')]])"
proof -
  let ?rec = "[(''id'', PInt 7), (''name'', PStr ''2024-01-01'')]"
  have P: "(\<lambda>_. Present []) (dir_name x_json) = Present []" by simp
  have keys: "\<forall>rec \<in> set [?rec]. distinct (map fst rec)" by simp
  have l: "json_load (json_dump (row_records [?rec]))
             = row_records [[(''id'', PInt 7), (''name'', PDatetime midnight)]]"
    unfolding load_dump_records[OF keys]
    by (simp add: iso_convert_def iso_date_only midnight_def)
  obtain fs' where w: "BackupFile_write x_json (row_records [?rec]) (\<lambda>_. Present []) = (Inr (), fs')"
    and r: "read x_json fs' = Inr (json_load (json_dump (row_records [?rec])))"
    using write_then_read[of "\<lambda>_. Present []" x_json "[]" "row_records [?rec]"] P empty_room
    by blast
  have "read x_json fs' = Inr (row_records [[(''id'', PInt 7), (''name'', PDatetime midnight)]])"
    using r unfolding l .
  moreover have "row_records [[(''id'', PInt 7), (''name'', PDatetime midnight)]]
                   \<noteq> row_records [?rec]"
    by (simp add: row_records_def)
  ultimately show ?thesis using w by auto
qed

text \<open>
  The other values left out of \<open>preserved\<close> do not come back as they went in. A NaN
  comes back as the one NaN that \<open>json\<close> reads (and no NaN equals itself in Python); a
  datetime whose offset is below one second comes back in UTC; a datetime in a list comes
  back as a string, and so does a date, which as the value of a field comes back as a
  datetime.
\<close>

lemma nan_not_restored:
  "json_load (json_dump (PFloat 0xFFF8000000000000)) = PFloat 0x7FF8000000000000"
  by (simp add: written_float_def is_nan_def)

lemma sub_second_offset_not_restored:
  "iso_convert (json_load (json_dump (PDatetime (midnight\<lparr>tzinfo := Some 500000\<rparr>))))
     = PDatetime (midnight\<lparr>tzinfo := Some 0\<rparr>)"
proof -
  have "valid_datetime (midnight\<lparr>tzinfo := Some 500000\<rparr>)"
    by (simp add: midnight_def valid_datetime_def valid_ymd_def days_in_month_def valid_offset_def)
  then have "fromisoformat (datetime_isoformat (midnight\<lparr>tzinfo := Some 500000\<rparr>))
               = Some (midnight\<lparr>tzinfo := Some 0\<rparr>)"
    using fromisoformat_after_isoformat[of "midnight\<lparr>tzinfo := Some 500000\<rparr>"] by simp
  then show ?thesis by (simp add: iso_convert_def)
qed

lemma datetime_in_list_not_restored:
  "json_load (json_dump (PList [PDatetime d])) = PList [PStr (datetime_isoformat d)]"
  by simp

lemma date_in_list_not_restored:
  "json_load (json_dump (PList [PDate d])) = PList [PStr (date_isoformat d)]"
  by simp

lemma date_field_not_restored:
  "iso_convert (json_load (json_dump (PDate \<lparr>year = 2024, month = 1, day = 1\<rparr>)))
     = PDatetime midnight"
proof -
  have "date_isoformat \<lparr>year = 2024, month = 1, day = 1\<rparr> = ''2024-01-01''"
    by (simp add: date_isoformat_def fmt_d_def zero_pad_def dec_small dec_large digit_char_eval)
  then show ?thesis by (simp add: iso_convert_def iso_date_only midnight_def)
qed

theorem unsupported_values_become_null_witness:
  "room_for_next x_json []
   \<and> (\<exists>name. BackupFile_write x_json
                 (row_records [[(''id'', PInt 1), (''price'', PObject ''Decimal'')]])
                 (\<lambda>_. Present []) =
                 (Inr (), (\<lambda>_. Present [])
                    (dir_name x_json :=
                       Present [(name, File (Document (JArr [JObj [(''id'', JNum 1), (''price'', JNull)]])))])))"
proof -
  have P: "(\<lambda>_. Present []) (dir_name x_json) = Present []" by simp
  show ?thesis
    using unsupported_values_become_null
      [of "\<lambda>_. Present []" x_json "[]" "''Decimal''"
          "row_records [[(''id'', PInt 1), (''price'', PObject ''Decimal'')]]"]
      P empty_room
    by (simp add: row_records_def)
qed

section \<open>The backup directory and the constructor\<close>

lemma init_Missing:
  "fs dn = Missing \<Longrightarrow>
   BackupFile_init dn fn fs =
     (Inr \<lparr>dir_name = dn, file_name = fn, revision_num_len = 4\<rparr>, fs(dn := Present []))"
  by (simp add: BackupFile_init_def mkdir_parents_exist_ok_def backup_dir_path_def
      REVISION_START_FROM_def)

lemma init_Present:
  "fs dn = Present d \<Longrightarrow>
   BackupFile_init dn fn fs = (Inr \<lparr>dir_name = dn, file_name = fn, revision_num_len = 4\<rparr>, fs)"
  by (simp add: BackupFile_init_def mkdir_parents_exist_ok_def backup_dir_path_def
      REVISION_START_FROM_def)

lemma write_Missing:
  "fs (dir_name self) = Missing \<Longrightarrow> BackupFile_write self data fs = (Inl FileNotFoundError, fs)"
  by (simp add: BackupFile_write_def new_file_path_def next_revision_def latest_revision_def
      listdir_def backup_dir_path_def)

lemma read_Missing:
  "fs (dir_name self) = Missing \<Longrightarrow> read self fs = Inl FileNotFoundError"
  by (simp add: read_def latest_file_path_def latest_revision_def listdir_def backup_dir_path_def)

lemma write_first:
  assumes "fs (dir_name self) = Present []"
  shows "BackupFile_write self data fs =
           (Inr (), fs(dir_name self :=
              Present [(''0001_'' @ file_name self, File (Document (json_dump data)))]))"
proof -
  have nr: "next_revision self fs = Inr (''0001_'' @ file_name self)"
    using assms by (intro next_revision_first[of fs self "[]"]) (simp_all add: all_backups_def)
  show ?thesis using write_fresh[of fs self "[]" "''0001_'' @ file_name self" data] assms nr by simp
qed

text \<open>
  C9, as amended. Constructing a \<open>BackupFile\<close> creates the backup directory when it is
  missing and leaves an existing one as it is, without error; a first write through the
  new handler then succeeds. The write itself creates no directory: on a handler whose
  directory is missing, \<open>write\<close> and \<open>read\<close> fail with a not-found error.
\<close>

theorem directory_created_by_constructor:
  "(fs dn = Missing \<longrightarrow>
      (\<exists>self. BackupFile_init dn fn fs = (Inr self, fs(dn := Present []))
         \<and> dir_name self = dn \<and> file_name self = fn
         \<and> BackupFile_write self data (fs(dn := Present [])) =
              (Inr (), fs(dn := Present [(''0001_'' @ fn, File (Document (json_dump data)))]))))
   \<and> (fs dn = Present d \<longrightarrow> snd (BackupFile_init dn fn fs) = fs \<and> fst (BackupFile_init dn fn fs)
         = Inr \<lparr>dir_name = dn, file_name = fn, revision_num_len = 4\<rparr>)
   \<and> (fs (dir_name self0) = Missing \<longrightarrow>
         BackupFile_write self0 data fs = (Inl FileNotFoundError, fs)
         \<and> read self0 fs = Inl FileNotFoundError)"
proof (intro conjI impI)
  assume m: "fs dn = Missing"
  let ?self = "\<lparr>dir_name = dn, file_name = fn, revision_num_len = 4\<rparr>"
  have "BackupFile_write ?self data (fs(dn := Present [])) =
          (Inr (), (fs(dn := Present []))(dir_name ?self :=
              Present [(''0001_'' @ file_name ?self, File (Document (json_dump data)))]))"
    by (rule write_first) simp
  then have "BackupFile_write ?self data (fs(dn := Present [])) =
          (Inr (), fs(dn := Present [(''0001_'' @ fn, File (Document (json_dump data)))]))"
    by simp
  then show "\<exists>self. BackupFile_init dn fn fs = (Inr self, fs(dn := Present []))
         \<and> dir_name self = dn \<and> file_name self = fn
         \<and> BackupFile_write self data (fs(dn := Present [])) =
              (Inr (), fs(dn := Present [(''0001_'' @ fn, File (Document (json_dump data)))]))"
    using init_Missing[of fs dn fn] m by (intro exI[of _ ?self]) simp
next
  assume "fs dn = Present d"
  then show "snd (BackupFile_init dn fn fs) = fs" by (simp add: init_Present)
next
  assume "fs dn = Present d"
  then show "fst (BackupFile_init dn fn fs) = Inr \<lparr>dir_name = dn, file_name = fn, revision_num_len = 4\<rparr>"
    by (simp add: init_Present)
next
  assume "fs (dir_name self0) = Missing"
  then show "BackupFile_write self0 data fs = (Inl FileNotFoundError, fs)" by (rule write_Missing)
next
  assume "fs (dir_name self0) = Missing"
  then show "read self0 fs = Inl FileNotFoundError" by (rule read_Missing)
qed

theorem directory_created_by_constructor_witness:
  "BackupFile_init ''migrations'' ''x.json'' (\<lambda>_. Missing)
     = (Inr x_json, (\<lambda>_. Missing)(''migrations'' := Present []))
   \<and> BackupFile_write x_json PNone ((\<lambda>_. Missing)(''migrations'' := Present []))
       = (Inr (), (\<lambda>_. Missing)(''migrations'' := Present [(''0001_x.json'', File (Document JNull))]))
   \<and> BackupFile_init ''migrations'' ''x.json'' (\<lambda>_. Present two_revisions)
       = (Inr x_json, \<lambda>_. Present two_revisions)"
proof -
  have 1: "\<exists>self. BackupFile_init ''migrations'' ''x.json'' (\<lambda>_. Missing)
              = (Inr self, (\<lambda>_. Missing)(''migrations'' := Present []))
         \<and> dir_name self = ''migrations'' \<and> file_name self = ''x.json''
         \<and> BackupFile_write self PNone ((\<lambda>_. Missing)(''migrations'' := Present [])) =
              (Inr (), (\<lambda>_. Missing)(''migrations'' := Present [(''0001_'' @ ''x.json'', File (Document (json_dump PNone)))]))"
    using directory_created_by_constructor
      [where fs = "\<lambda>_. Missing" and dn = "''migrations''" and fn = "''x.json''" and data = PNone]
    by simp
  have i: "BackupFile_init ''migrations'' ''x.json'' (\<lambda>_. Missing)
             = (Inr x_json, (\<lambda>_. Missing)(''migrations'' := Present []))"
    by (simp add: init_Missing x_json_def)
  have w: "BackupFile_write x_json PNone ((\<lambda>_. Missing)(''migrations'' := Present []))
       = (Inr (), (\<lambda>_. Missing)(''migrations'' := Present [(''0001_x.json'', File (Document JNull))]))"
    using 1 i by auto
  have p: "BackupFile_init ''migrations'' ''x.json'' (\<lambda>_. Present two_revisions)
       = (Inr x_json, \<lambda>_. Present two_revisions)"
    using directory_created_by_constructor
      [where fs = "\<lambda>_. Present two_revisions" and dn = "''migrations''" and d = two_revisions
         and fn = "''x.json''"]
    by (simp add: prod_eq_iff x_json_def)
  show ?thesis using i w p by simp
qed

text \<open>
  The write does not create the directory, and a read on a missing directory is an
  error; the constructor alone, with no write, creates it.
\<close>

theorem write_does_not_create_directory:
  "BackupFile_write x_json PNone (\<lambda>_. Missing) = (Inl FileNotFoundError, \<lambda>_. Missing)
   \<and> read x_json (\<lambda>_. Missing) = Inl FileNotFoundError
   \<and> snd (BackupFile_init ''migrations'' ''x.json'' (\<lambda>_. Missing)) ''migrations'' = Present []"
  by (simp add: write_Missing read_Missing init_Missing)

section \<open>Restore is all or nothing\<close>

lemma atomic_cases:
  "(\<exists>e. atomic body t = (Inl e, t) \<and> fst (body t) = Inl e)
   \<or> (atomic body t = body t \<and> fst (body t) = Inr ())"
  by (cases "body t") (auto simp: atomic_def split: sum.splits)

lemma load_eq_restore: "load file_handler db fs = restore file_handler db fs"
  unfolding load_def restore_def
  by (rule arg_cong[of _ _ atomic]) (simp add: fun_eq_iff restore_body_def)

lemma restore_body_success:
  assumes "fst (restore_body file_handler db fs t) = Inr ()"
  shows "\<exists>rows t1. get_migrations_data_from_backup file_handler db fs = Inr rows
           \<and> delete_all db t = (Inr (), t1)
           \<and> bulk_create db rows t1 = (Inr (), snd (restore_body file_handler db fs t))"
  using assms
  by (auto simp: restore_body_def prod_eq_iff split: sum.splits prod.splits)

text \<open>
  C2. Whatever the model constructor, the delete and the bulk insert do and wherever
  one of the steps fails, a failed restore leaves the table as it was before, and a
  restore that succeeds leaves it as the delete followed by the insert of all rows of
  the snapshot leave it: both take effect or neither. The same holds for
  \<open>MigrationBackup.load\<close>.
\<close>

theorem restore_all_or_nothing:
  "(fst (restore file_handler db fs t) \<noteq> Inr () \<longrightarrow> snd (restore file_handler db fs t) = t)
   \<and> (fst (restore file_handler db fs t) = Inr () \<longrightarrow>
        (\<exists>rows t1. get_migrations_data_from_backup file_handler db fs = Inr rows
           \<and> delete_all db t = (Inr (), t1)
           \<and> bulk_create db rows t1 = (Inr (), snd (restore file_handler db fs t))))
   \<and> load file_handler db fs t = restore file_handler db fs t"
proof (intro conjI impI)
  assume "fst (restore file_handler db fs t) \<noteq> Inr ()"
  then show "snd (restore file_handler db fs t) = t"
    using atomic_cases[of "restore_body file_handler db fs" t] by (auto simp: restore_def)
next
  assume ok: "fst (restore file_handler db fs t) = Inr ()"
  then have e: "restore file_handler db fs t = restore_body file_handler db fs t"
    using atomic_cases[of "restore_body file_handler db fs" t] by (auto simp: restore_def)
  then have "fst (restore_body file_handler db fs t) = Inr ()" using ok by simp
  then show "\<exists>rows t1. get_migrations_data_from_backup file_handler db fs = Inr rows
           \<and> delete_all db t = (Inr (), t1)
           \<and> bulk_create db rows t1 = (Inr (), snd (restore file_handler db fs t))"
    unfolding e by (rule restore_body_success)
next
  show "load file_handler db fs t = restore file_handler db fs t" by (simp add: load_eq_restore)
qed

lemma read_one_snapshot:
  "read x_json one_snapshot = Inr (PList [PDict [(''id'', PInt 1)], PDict [(''id'', PInt 2)]])"
proof -
  let ?d = "[(''0001_x.json'', File (Document (JArr [JObj [(''id'', JNum 1)], JObj [(''id'', JNum 2)]])))]"
  have P: "one_snapshot (dir_name x_json) = Present ?d" by (simp add: one_snapshot_def)
  have ab: "all_backups (file_name x_json) (map fst ?d) = [''0001_x.json'']"
    by (simp add: all_backups_def suffix_eval x_json_def)
  have "all_backups (file_name x_json) (map fst ?d) \<noteq> []" unfolding ab by simp
  then have "latest_revision x_json one_snapshot
               = Inr (Some (Max (set (all_backups (file_name x_json) (map fst ?d)))))"
    using latest_revision_Max[of one_snapshot x_json ?d] P by blast
  then have lr: "latest_revision x_json one_snapshot = Inr (Some ''0001_x.json'')"
    unfolding ab by simp
  have "read x_json one_snapshot
          = Inr (json_load (JArr [JObj [(''id'', JNum 1)], JObj [(''id'', JNum 2)]]))"
    using read_of_latest[of one_snapshot x_json ?d "''0001_x.json''"] P lr by simp
  then show ?thesis by (simp add: py_dict_def datetime_json_deserialize_def)
qed

lemma rows_one_snapshot:
  "get_migrations_data_from_backup x_json breaking_orm one_snapshot
     = Inr [[(''id'', PInt 1)], [(''id'', PInt 2)]]"
  "get_migrations_data_from_backup x_json plain_orm one_snapshot
     = Inr [[(''id'', PInt 1)], [(''id'', PInt 2)]]"
  by (simp_all add: get_migrations_data_from_backup_def read_one_snapshot breaking_orm_def
      plain_orm_def)

theorem restore_all_or_nothing_witness:
  "fst (restore x_json breaking_orm one_snapshot [[(''id'', PInt 9)]]) = Inl DatabaseError
   \<and> snd (restore x_json breaking_orm one_snapshot [[(''id'', PInt 9)]]) = [[(''id'', PInt 9)]]
   \<and> snd (restore_body x_json breaking_orm one_snapshot [[(''id'', PInt 9)]]) = [[(''id'', PInt 1)]]
   \<and> restore x_json plain_orm one_snapshot [[(''id'', PInt 9)]]
       = (Inr (), [[(''id'', PInt 1)], [(''id'', PInt 2)]])"
proof -
  let ?t = "[[(''id'', PInt 9)]]"
  have b: "restore_body x_json breaking_orm one_snapshot ?t = (Inl DatabaseError, [[(''id'', PInt 1)]])"
    by (simp add: restore_body_def rows_one_snapshot) (simp add: breaking_orm_def)
  then have f: "fst (restore x_json breaking_orm one_snapshot ?t) = Inl DatabaseError"
    by (simp add: restore_def atomic_def)
  then have "fst (restore x_json breaking_orm one_snapshot ?t) \<noteq> Inr ()" by simp
  then have s: "snd (restore x_json breaking_orm one_snapshot ?t) = ?t"
    using restore_all_or_nothing[of x_json breaking_orm one_snapshot ?t] by blast
  have p: "restore_body x_json plain_orm one_snapshot ?t = (Inr (), [[(''id'', PInt 1)], [(''id'', PInt 2)]])"
    by (simp add: restore_body_def rows_one_snapshot) (simp add: plain_orm_def)
  then have ok: "restore x_json plain_orm one_snapshot ?t = (Inr (), [[(''id'', PInt 1)], [(''id'', PInt 2)]])"
    by (simp add: restore_def atomic_def)
  show ?thesis using f s b ok by simp
qed

end
